theory Spec2Isabelle
  imports Complex_Main "HOL-Library.AList"
begin

section \<open>Data model\<close>

text \<open>
  Embedding of \<^verbatim>\<open>moonraker/components/power.py\<close>: the device registry
  \<^verbatim>\<open>PrinterPower\<close>, the generic engine \<^verbatim>\<open>PowerDevice\<close> and the drivers
  \<^verbatim>\<open>HTTPDevice\<close>, \<^verbatim>\<open>GpioDevice\<close>, \<^verbatim>\<open>RFDevice\<close> and \<^verbatim>\<open>KlipperDevice\<close>.

  Every failure of the file is raised through \<^verbatim>\<open>self.server.error(msg)\<close>; it is the
  value \<open>ServerError msg\<close>. Strings are ASCII character lists. Logging is not modelled.
\<close>

datatype error = ServerError string

text \<open>
  \<^verbatim>\<open>KlippyState\<close> and \<^verbatim>\<open>RequestType\<close> are imported from \<^verbatim>\<open>..common\<close>. The file names
  the states \<^verbatim>\<open>READY\<close> and \<^verbatim>\<open>SHUTDOWN\<close> and the request types \<^verbatim>\<open>GET\<close> and \<^verbatim>\<open>POST\<close>;
  the other constructors stand for the remaining values.
\<close>

datatype KlippyState = DISCONNECTED | STARTUP | READY | ERROR | SHUTDOWN

datatype RequestType = GET | POST | DELETE

text \<open>The \<^verbatim>\<open>state\<close> argument of \<^verbatim>\<open>set_device_power\<close>: a bool, a str, or any other value.\<close>

datatype state_arg = BoolState bool | StrState string | OtherState

text \<open>
  The callables handed to \<^verbatim>\<open>event_loop.delay_callback\<close>:
  \<^verbatim>\<open>power.set_device_power(name, state)\<close>, \<^verbatim>\<open>self._power_off_on_shutdown\<close> of the device
  registered under a key, and \<^verbatim>\<open>kapis.do_restart(gcode, True)\<close>.
\<close>

datatype timer_callback =
    SetDevicePowerCb string state_arg
  | PowerOffOnShutdownCb string
  | DoRestartCb string

record DeviceInfo =
  device :: string
  status :: string
  info_locked_while_printing :: bool
  info_type :: string

text \<open>
  What the engine does to its collaborators, in the order it happens:
  \<^verbatim>\<open>server.send_event(name, info)\<close>, \<^verbatim>\<open>machine.do_service_action(action, svc)\<close> and the
  restart \<^verbatim>\<open>kapis.do_restart(gcode)\<close> run by a timer.
\<close>

datatype event =
    SendEvent string DeviceInfo
  | ServiceAction string string
  | KlippyRestart string

text \<open>
  The server side of a device: the events sent so far, the pending timers of the event
  loop as (handle, delay, callback), the next fresh handle, and the queue of
  \<^verbatim>\<open>register_callback(process_request, request, force=force)\<close> entries as
  (device key, request, force).
\<close>

record Server =
  events :: "event list"
  timers :: "(nat \<times> real \<times> timer_callback) list"
  next_handle :: nat
  callbacks :: "(string \<times> string \<times> bool) list"

text \<open>
  What a call reads from its surroundings: \<^verbatim>\<open>kconn.state\<close>,
  \<^verbatim>\<open>kconn.state.startup_complete()\<close>, \<^verbatim>\<open>kconn.is_printing()\<close> and
  \<^verbatim>\<open>eventloop.get_loop_time()\<close>.
\<close>

record Env =
  kconn_state :: KlippyState
  startup_complete :: bool
  is_printing :: bool
  loop_time :: real

text \<open>
  The fields of \<^verbatim>\<open>PowerDevice\<close> that the modelled methods read or write.
  \<open>request_lock\<close> is \<^verbatim>\<open>self.request_lock.locked()\<close>.
\<close>

record Device =
  name :: string
  dev_type :: string
  state :: string
  request_lock :: bool
  locked_while_printing :: bool
  off_when_shutdown :: bool
  off_when_shutdown_delay :: real
  shutdown_timer_handle :: "nat option"
  restart_delay :: real
  klipper_restart :: bool
  bound_services :: "string list"
  need_scheduled_restart :: bool
  restrict_actions :: bool
  last_update_time :: real

text \<open>
  The driver capability: \<^verbatim>\<open>refresh_status\<close> and \<^verbatim>\<open>set_power\<close> of the device's class.
  Each returns the exception it raised, if any, with the device and the server as the
  call left them.
\<close>

record 'x Driver =
  refresh_status :: "Env \<Rightarrow> 'x Device_scheme \<times> Server \<Rightarrow> error option \<times> 'x Device_scheme \<times> Server"
  set_power :: "Env \<Rightarrow> string \<Rightarrow> 'x Device_scheme \<times> Server \<Rightarrow> error option \<times> 'x Device_scheme \<times> Server"

text \<open>\<^verbatim>\<open>PrinterPower\<close>: the dict \<^verbatim>\<open>self.devices\<close> in insertion order, and the server.\<close>

record 'x PrinterPower =
  devices :: "(string \<times> 'x Device_scheme) list"
  server :: Server

section \<open>Event loop\<close>

definition delay_callback :: "real \<Rightarrow> timer_callback \<Rightarrow> Server \<Rightarrow> nat \<times> Server" where
  "delay_callback delay cb s =
     (next_handle s,
      s\<lparr>timers := timers s @ [(next_handle s, delay, cb)], next_handle := Suc (next_handle s)\<rparr>)"

definition cancel :: "nat \<Rightarrow> Server \<Rightarrow> Server" where
  "cancel h s = s\<lparr>timers := filter (\<lambda>t. fst t \<noteq> h) (timers s)\<rparr>"

definition register_callback :: "string \<times> string \<times> bool \<Rightarrow> Server \<Rightarrow> Server" where
  "register_callback cb s = s\<lparr>callbacks := callbacks s @ [cb]\<rparr>"

definition send_event :: "string \<Rightarrow> DeviceInfo \<Rightarrow> Server \<Rightarrow> Server" where
  "send_event ev info s = s\<lparr>events := events s @ [SendEvent ev info]\<rparr>"

definition do_service_action :: "string \<Rightarrow> string \<Rightarrow> Server \<Rightarrow> Server" where
  "do_service_action action svc s = s\<lparr>events := events s @ [ServiceAction action svc]\<rparr>"

section \<open>PowerDevice\<close>

definition get_device_info :: "'x Device_scheme \<Rightarrow> DeviceInfo" where
  "get_device_info d =
     \<lparr>device = name d, status = state d,
      info_locked_while_printing = locked_while_printing d, info_type = dev_type d\<rparr>"

definition notify_power_changed :: "'x Device_scheme \<times> Server \<Rightarrow> 'x Device_scheme \<times> Server" where
  "notify_power_changed ds =
     (case ds of (d, s) \<Rightarrow> (d, send_event ''power:power_changed'' (get_device_info d) s))"

text \<open>
  \<^verbatim>\<open>process_bound_services\<close>: the loop over the services; an exception of
  \<^verbatim>\<open>do_service_action\<close> is logged and the loop goes on.
\<close>

definition process_bound_services :: "'x Device_scheme \<times> Server \<Rightarrow> 'x Device_scheme \<times> Server" where
  "process_bound_services ds =
     (case ds of (d, s) \<Rightarrow>
        if bound_services d = [] \<or> state d \<notin> set [''on'', ''off''] then (d, s)
        else
          let action = (if state d = ''on'' then ''start'' else ''stop'')
          in (d, foldl (\<lambda>s' svc. do_service_action action svc s') s (bound_services d)))"

definition schedule_firmware_restart ::
  "KlippyState \<Rightarrow> 'x Device_scheme \<times> Server \<Rightarrow> 'x Device_scheme \<times> Server" where
  "schedule_firmware_restart kstate ds =
     (case ds of (d, s) \<Rightarrow>
        if \<not> need_scheduled_restart d then (d, s)
        else
          let d' = d\<lparr>need_scheduled_restart := False\<rparr>
          in if kstate = READY then (d', s)
             else (d', snd (delay_callback (restart_delay d') (DoRestartCb ''FIRMWARE_RESTART'') s)))"

definition process_power_changed ::
  "Env \<Rightarrow> 'x Device_scheme \<times> Server \<Rightarrow> 'x Device_scheme \<times> Server" where
  "process_power_changed env ds =
     (case notify_power_changed ds of (d, s) \<Rightarrow>
        case (if bound_services d \<noteq> [] then process_bound_services (d, s) else (d, s)) of
          (d1, s1) \<Rightarrow>
            if state d1 = ''on'' \<and> klipper_restart d1 then
              let d2 = d1\<lparr>need_scheduled_restart := True\<rparr>
              in if \<not> startup_complete env then (d2, s1)
                 else schedule_firmware_restart (kconn_state env) (d2, s1)
            else (d1, s1))"

text \<open>
  Lines 440 to 444 and 460 to 464 of \<^verbatim>\<open>process_request\<close>: what is done when the
  refreshed state is kept.
\<close>

definition external_change ::
  "Env \<Rightarrow> string \<Rightarrow> string \<Rightarrow> 'x Device_scheme \<times> Server \<Rightarrow> 'x Device_scheme \<times> Server" where
  "external_change env base_state cur_state ds =
     (if base_state \<noteq> cur_state then
        if restrict_actions (fst ds) then notify_power_changed ds
        else process_power_changed env ds
      else ds)"

text \<open>
  The body of the \<^verbatim>\<open>try\<close> block of \<^verbatim>\<open>process_request\<close>, run with the lock held:
  \<open>Inl\<close> is the exception that leaves the block, \<open>Inr\<close> the returned state.
\<close>

definition process_request_locked ::
  "'x Driver \<Rightarrow> Env \<Rightarrow> string \<Rightarrow> bool \<Rightarrow> 'x Device_scheme \<times> Server
     \<Rightarrow> (error + string) \<times> 'x Device_scheme \<times> Server" where
  "process_request_locked drv env req force ds =
     (let base_state = state (fst ds)
      in case refresh_status drv env ds of
           (Some e, d1, s1) \<Rightarrow> (Inl e, d1, s1)
         | (None, d1, s1) \<Rightarrow>
             let cur_state = state d1;
                 req1 = (if req = ''toggle''
                         then (if cur_state = ''off'' then ''on'' else ''off'') else req)
             in if req1 \<in> set [''on'', ''off''] then
                  if req1 = cur_state then
                    (Inr cur_state, external_change env base_state cur_state (d1, s1))
                  else if \<not> force \<and> locked_while_printing d1 \<and> is_printing env then
                    (Inl (ServerError (''Unable to change power for '' @ name d1
                                        @ '' while printing'')), d1, s1)
                  else
                    (case set_power drv env req1 (d1, s1) of
                       (Some e, d2, s2) \<Rightarrow> (Inl e, d2, s2)
                     | (None, d2, s2) \<Rightarrow> (Inr (state d2), process_power_changed env (d2, s2)))
                else if req1 \<noteq> ''status'' then
                  (Inl (ServerError (''Unsupported power request: '' @ req1)), d1, s1)
                else (Inr cur_state, external_change env base_state cur_state (d1, s1)))"

text \<open>
  \<^verbatim>\<open>process_request\<close>. The result \<open>None\<close> is the call that waits for a lock held by
  another task: it does not return until that task releases the lock. The
  \<^verbatim>\<open>finally\<close> clause stamps \<^verbatim>\<open>_last_update_time\<close> on every exit of the block and
  \<^verbatim>\<open>async with\<close> releases the lock.
\<close>

definition process_request ::
  "'x Driver \<Rightarrow> Env \<Rightarrow> string \<Rightarrow> bool \<Rightarrow> 'x Device_scheme \<times> Server
     \<Rightarrow> (error + string) option \<times> 'x Device_scheme \<times> Server" where
  "process_request drv env req force ds =
     (case ds of (d, s) \<Rightarrow>
        if state d = ''init'' \<and> request_lock d then (Some (Inr (state d)), d, s)
        else if request_lock d then (None, d, s)
        else
          case process_request_locked drv env req force (d\<lparr>request_lock := True\<rparr>, s) of
            (r, d', s') \<Rightarrow>
              (Some r, d'\<lparr>last_update_time := loop_time env, request_lock := False\<rparr>, s'))"


section \<open>Drivers\<close>

text \<open>
  \<^verbatim>\<open>HTTPDevice\<close>: \<open>reply\<close> is what \<^verbatim>\<open>_send_status_request\<close> or
  \<^verbatim>\<open>_send_power_request\<close> returns, \<open>None\<close> when it raises.
\<close>

definition http_refresh_status ::
  "string option \<Rightarrow> 'x Device_scheme \<times> Server \<Rightarrow> error option \<times> 'x Device_scheme \<times> Server" where
  "http_refresh_status reply ds =
     (case ds of (d, s) \<Rightarrow>
        (case reply of
           None \<Rightarrow> (None, d\<lparr>state := ''error''\<rparr>, s)
         | Some st \<Rightarrow> (None, d\<lparr>state := st\<rparr>, s)))"

definition http_set_power ::
  "string option \<Rightarrow> string \<Rightarrow> 'x Device_scheme \<times> Server
     \<Rightarrow> error option \<times> 'x Device_scheme \<times> Server" where
  "http_set_power reply st ds =
     (case ds of (d, s) \<Rightarrow>
        (case reply of
           None \<Rightarrow>
             (Some (ServerError (''Error Setting Device Status: '' @ name d @ '' to '' @ st)),
              d\<lparr>state := ''error''\<rparr>, s)
         | Some st' \<Rightarrow> (None, d\<lparr>state := st'\<rparr>, s)))"

definition http_driver :: "string option \<Rightarrow> string option \<Rightarrow> 'x Driver" where
  "http_driver status_reply power_reply =
     \<lparr>refresh_status = (\<lambda>env. http_refresh_status status_reply),
      set_power = (\<lambda>env. http_set_power power_reply)\<rparr>"

text \<open>
  \<^verbatim>\<open>GpioDevice\<close> and \<^verbatim>\<open>KlipperDevice\<close> both add \<^verbatim>\<open>timer\<close> and \<^verbatim>\<open>timer_handle\<close>;
  \<^verbatim>\<open>KlipperDevice\<close> adds \<^verbatim>\<open>is_shutdown\<close> as well.
\<close>

record TimerDevice = Device +
  timer :: "real option"
  timer_handle :: "nat option"

record KlipperDevice = TimerDevice +
  is_shutdown :: bool

definition check_timer ::
  "'y TimerDevice_scheme \<times> Server \<Rightarrow> 'y TimerDevice_scheme \<times> Server" where
  "check_timer ds =
     (case ds of (d, s) \<Rightarrow>
        (case timer d of
           None \<Rightarrow> (d, s)
         | Some t \<Rightarrow>
             if state d = ''on'' then
               (case delay_callback t (SetDevicePowerCb (name d) (StrState ''off'')) s of
                  (h, s') \<Rightarrow> (d\<lparr>timer_handle := Some h\<rparr>, s'))
             else (d, s)))"

definition reset_timer ::
  "'y TimerDevice_scheme \<times> Server \<Rightarrow> 'y TimerDevice_scheme \<times> Server" where
  "reset_timer ds =
     (case ds of (d, s) \<Rightarrow>
        (case timer_handle d of
           None \<Rightarrow> (d, s)
         | Some h \<Rightarrow> (d\<lparr>timer_handle := None\<rparr>, cancel h s)))"

text \<open>\<^verbatim>\<open>GpioDevice.set_power\<close>; \<open>write_ok\<close> is whether \<^verbatim>\<open>gpio_out.write\<close> returns.\<close>

definition gpio_set_power ::
  "bool \<Rightarrow> string \<Rightarrow> 'y TimerDevice_scheme \<times> Server
     \<Rightarrow> error option \<times> 'y TimerDevice_scheme \<times> Server" where
  "gpio_set_power write_ok st ds =
     (case reset_timer ds of (d, s) \<Rightarrow>
        if \<not> write_ok then
          (Some (ServerError (''Error Toggling Device Power: '' @ name d)),
           d\<lparr>state := ''error''\<rparr>, s)
        else (None, check_timer (d\<lparr>state := st\<rparr>, s)))"

definition gpio_close ::
  "'y TimerDevice_scheme \<times> Server \<Rightarrow> 'y TimerDevice_scheme \<times> Server" where
  "gpio_close ds = reset_timer ds"

definition gpio_driver :: "bool \<Rightarrow> \<lparr>timer :: real option, timer_handle :: nat option, \<dots> :: 'y\<rparr> Driver" where
  "gpio_driver write_ok =
     \<lparr>refresh_status = (\<lambda>env ds. (None, ds)),
      set_power = (\<lambda>env. gpio_set_power write_ok)\<rparr>"

text \<open>
  \<^verbatim>\<open>RFDevice.set_power\<close>, which overrides \<^verbatim>\<open>GpioDevice.set_power\<close>; \<open>transmit_ok\<close> is
  whether \<^verbatim>\<open>_transmit_code\<close> returns.
\<close>

definition rf_set_power ::
  "bool \<Rightarrow> string \<Rightarrow> 'y TimerDevice_scheme \<times> Server
     \<Rightarrow> error option \<times> 'y TimerDevice_scheme \<times> Server" where
  "rf_set_power transmit_ok st ds =
     (case ds of (d, s) \<Rightarrow>
        if \<not> transmit_ok then
          (Some (ServerError (''Error Toggling Device Power: '' @ name d)),
           d\<lparr>state := ''error''\<rparr>, s)
        else (None, check_timer (d\<lparr>state := st\<rparr>, s)))"

definition rf_driver :: "bool \<Rightarrow> \<lparr>timer :: real option, timer_handle :: nat option, \<dots> :: 'y\<rparr> Driver" where
  "rf_driver transmit_ok =
     \<lparr>refresh_status = (\<lambda>env ds. (None, ds)),
      set_power = (\<lambda>env. rf_set_power transmit_ok)\<rparr>"

text \<open>
  \<^verbatim>\<open>KlipperDevice.set_power\<close>. What Klippy does with the gcode is the reply: the wait
  times out, another exception is raised, or a status update with a value arrives, which
  \<^verbatim>\<open>_set_state_from_data\<close> stores through \<^verbatim>\<open>_set_state\<close>. \<^verbatim>\<open>set_power\<close> runs with the
  request lock held, where \<^verbatim>\<open>_set_state\<close> stores the state and the time and starts no
  notification task.
\<close>

datatype klippy_reply = GcodeTimeout | GcodeError | StatusUpdate bool

definition klipper_set_state :: "Env \<Rightarrow> string \<Rightarrow> 'y KlipperDevice_scheme \<Rightarrow> 'y KlipperDevice_scheme" where
  "klipper_set_state env st d = d\<lparr>state := st, last_update_time := loop_time env\<rparr>"

definition klipper_set_power ::
  "klippy_reply \<Rightarrow> Env \<Rightarrow> string \<Rightarrow> 'y KlipperDevice_scheme \<times> Server
     \<Rightarrow> error option \<times> 'y KlipperDevice_scheme \<times> Server" where
  "klipper_set_power reply env st ds =
     (if is_shutdown (fst ds) then
        (Some (ServerError (''Power Device '' @ name (fst ds)
                 @ '': Cannot set power for device when Klipper is shutdown'')), ds)
      else
        case reset_timer ds of (d, s) \<Rightarrow>
          (case reply of
             GcodeTimeout \<Rightarrow>
               (Some (ServerError (''Power device '' @ name d
                        @ '': Timeout waiting for device state update'')),
                d\<lparr>state := ''error''\<rparr>, s)
           | GcodeError \<Rightarrow>
               (Some (ServerError (''Error Toggling Device Power: '' @ name d)),
                d\<lparr>state := ''error''\<rparr>, s)
           | StatusUpdate v \<Rightarrow>
               (None, check_timer (klipper_set_state env (if v then ''on'' else ''off'') d, s))))"

text \<open>\<^verbatim>\<open>KlipperDevice._handle_disconnect\<close>, \<^verbatim>\<open>process_klippy_shutdown\<close> and \<^verbatim>\<open>close\<close>.\<close>

definition klipper_handle_disconnect ::
  "Env \<Rightarrow> 'y KlipperDevice_scheme \<times> Server \<Rightarrow> 'y KlipperDevice_scheme \<times> Server" where
  "klipper_handle_disconnect env ds =
     (case ds of (d, s) \<Rightarrow>
        reset_timer (klipper_set_state env ''init'' (d\<lparr>is_shutdown := False\<rparr>), s))"

definition klipper_process_klippy_shutdown ::
  "Env \<Rightarrow> 'y KlipperDevice_scheme \<times> Server \<Rightarrow> 'y KlipperDevice_scheme \<times> Server" where
  "klipper_process_klippy_shutdown env ds =
     (case ds of (d, s) \<Rightarrow>
        reset_timer (klipper_set_state env ''error'' (d\<lparr>is_shutdown := True\<rparr>), s))"

definition klipper_close ::
  "'y KlipperDevice_scheme \<times> Server \<Rightarrow> 'y KlipperDevice_scheme \<times> Server" where
  "klipper_close ds = reset_timer ds"

section \<open>PrinterPower\<close>

text \<open>\<^verbatim>\<open>str.lower\<close> on ASCII.\<close>

definition lower_char :: "char \<Rightarrow> char" where
  "lower_char c =
     (let n = (of_char c :: nat) in if 65 \<le> n \<and> n \<le> 90 then char_of (n + 32) else c)"

definition lower :: "string \<Rightarrow> string" where
  "lower s = map lower_char s"

text \<open>Lines 180 to 186 of \<^verbatim>\<open>set_device_power\<close>: the request a state argument stands for.\<close>

definition normalize_request :: "state_arg \<Rightarrow> string" where
  "normalize_request st =
     (case st of
        BoolState b \<Rightarrow> (if b then ''on'' else ''off'')
      | StrState str \<Rightarrow>
          (let request = lower str
           in if request \<in> set [''true'', ''false'']
              then (if request = ''true'' then ''on'' else ''off'')
              else request)
      | OtherState \<Rightarrow> [])"

definition set_device_power ::
  "string \<Rightarrow> state_arg \<Rightarrow> bool \<Rightarrow> 'x PrinterPower \<Rightarrow> 'x PrinterPower" where
  "set_device_power dev st force w =
     (let request = normalize_request st
      in if request \<notin> set [''on'', ''off'', ''toggle''] then w
         else if map_of (devices w) dev = None then w
         else w\<lparr>server := register_callback (dev, request, force) (server w)\<rparr>)"

text \<open>
  \<^verbatim>\<open>await dev.process_request(req)\<close> on the device registered under \<open>key\<close>: the device
  object is changed in place, so the changed device is stored back under its key.
\<close>

definition request_device ::
  "'x Driver \<Rightarrow> Env \<Rightarrow> string \<Rightarrow> 'x Device_scheme \<Rightarrow> string \<Rightarrow> bool \<Rightarrow> 'x PrinterPower
     \<Rightarrow> (error + string) option \<times> 'x PrinterPower" where
  "request_device drv env key dev req force w =
     (case process_request drv env req force (dev, server w) of
        (r, d', s') \<Rightarrow> (r, w\<lparr>devices := AList.update key d' (devices w), server := s'\<rparr>))"

text \<open>
  A web request: \<^verbatim>\<open>get_args()\<close> (a dict, so its keys are distinct), \<^verbatim>\<open>get_endpoint()\<close>
  and \<^verbatim>\<open>get_request_type()\<close>. \<^verbatim>\<open>get_str(key)\<close> fails when the argument is missing.
\<close>

record WebRequest =
  args :: "(string \<times> string) list"
  endpoint :: string
  request_type :: RequestType





text \<open>\<^verbatim>\<open>ep.split("/")[-1]\<close>.\<close>

definition last_segment :: "string \<Rightarrow> string" where
  "last_segment ep = rev (takeWhile (\<lambda>c. c \<noteq> CHR ''/'') (rev ep))"

text \<open>
  The loop of \<^verbatim>\<open>_handle_batch_power_request\<close> over the requested names. The dict
  \<^verbatim>\<open>requested_devs\<close> holds the device objects themselves, so looking a name up when its
  turn comes finds the same device. An exception of \<^verbatim>\<open>process_request\<close> is not caught:
  it leaves the loop and the handler.
\<close>

fun batch_loop ::
  "(string \<Rightarrow> 'x Driver) \<Rightarrow> Env \<Rightarrow> string \<Rightarrow> string list \<Rightarrow> (string \<times> string) list
     \<Rightarrow> 'x PrinterPower \<Rightarrow> (error + (string \<times> string) list) option \<times> 'x PrinterPower" where
  "batch_loop drvs env req [] result w = (Some (Inr result), w)"
| "batch_loop drvs env req (n # ns) result w =
     (case map_of (devices w) n of
        Some dev \<Rightarrow>
          (case request_device (drvs n) env n dev req False w of
             (None, w') \<Rightarrow> (None, w')
           | (Some (Inl e), w') \<Rightarrow> (Some (Inl e), w')
           | (Some (Inr r), w') \<Rightarrow> batch_loop drvs env req ns (AList.update n r result) w')
      | None \<Rightarrow> batch_loop drvs env req ns (AList.update n ''device_not_found'' result) w)"

definition handle_batch_power_request ::
  "(string \<Rightarrow> 'x Driver) \<Rightarrow> Env \<Rightarrow> WebRequest \<Rightarrow> 'x PrinterPower
     \<Rightarrow> (error + (string \<times> string) list) option \<times> 'x PrinterPower" where
  "handle_batch_power_request drvs env wr w =
     (if args wr = [] then (Some (Inl (ServerError ''No arguments provided'')), w)
      else batch_loop drvs env (last_segment (endpoint wr)) (map fst (args wr)) [] w)"

subsection \<open>Shutdown of Klippy\<close>

definition power_off_on_shutdown ::
  "Env \<Rightarrow> 'x Device_scheme \<Rightarrow> 'x PrinterPower \<Rightarrow> 'x PrinterPower" where
  "power_off_on_shutdown env d w =
     (if kconn_state env \<noteq> SHUTDOWN then w
      else set_device_power (name d) (StrState ''off'') False w)"

text \<open>\<^verbatim>\<open>PowerDevice.process_klippy_shutdown\<close> of the device registered under \<open>key\<close>.\<close>

definition process_klippy_shutdown ::
  "Env \<Rightarrow> string \<Rightarrow> 'x PrinterPower \<Rightarrow> 'x PrinterPower" where
  "process_klippy_shutdown env key w =
     (case map_of (devices w) key of
        None \<Rightarrow> w
      | Some d \<Rightarrow>
          if \<not> off_when_shutdown d then w
          else if off_when_shutdown_delay d = 0 then power_off_on_shutdown env d w
          else
            let s1 = (case shutdown_timer_handle d of
                        Some h \<Rightarrow> cancel h (server w)
                      | None \<Rightarrow> server w)
            in case delay_callback (off_when_shutdown_delay d) (PowerOffOnShutdownCb key) s1 of
                 (h', s2) \<Rightarrow>
                   w\<lparr>devices := AList.update key (d\<lparr>shutdown_timer_handle := Some h'\<rparr>) (devices w),
                     server := s2\<rparr>)"

text \<open>What a timer's callback does when the event loop runs it.\<close>

definition run_timer_callback ::
  "Env \<Rightarrow> timer_callback \<Rightarrow> 'x PrinterPower \<Rightarrow> 'x PrinterPower" where
  "run_timer_callback env cb w =
     (case cb of
        SetDevicePowerCb n st \<Rightarrow> set_device_power n st False w
      | PowerOffOnShutdownCb key \<Rightarrow>
          (case map_of (devices w) key of
             None \<Rightarrow> w
           | Some d \<Rightarrow> power_off_on_shutdown env d w)
      | DoRestartCb g \<Rightarrow> w\<lparr>server := (server w)\<lparr>events := events (server w) @ [KlippyRestart g]\<rparr>\<rparr>)"

text \<open>
  The event loop runs the pending timer with handle \<open>h\<close>: the timer leaves the pending
  ones and its callback runs. A cancelled or already run handle does nothing.
\<close>

definition fire_timer :: "Env \<Rightarrow> nat \<Rightarrow> 'x PrinterPower \<Rightarrow> 'x PrinterPower" where
  "fire_timer env h w =
     (case find (\<lambda>t. fst t = h) (timers (server w)) of
        None \<Rightarrow> w
      | Some t \<Rightarrow> run_timer_callback env (snd (snd t)) (w\<lparr>server := cancel h (server w)\<rparr>))"


section \<open>Example configurations\<close>

definition server0 :: Server where
  "server0 = \<lparr>events = [], timers = [], next_handle = 0, callbacks = []\<rparr>"

definition env_printing :: Env where
  "env_printing =
     \<lparr>kconn_state = READY, startup_complete = True, is_printing = True, loop_time = 10\<rparr>"

definition plug :: Device where
  "plug = \<lparr>name = ''plug'', dev_type = ''tasmota'', state = ''on'', request_lock = False,
            locked_while_printing = True, off_when_shutdown = False, off_when_shutdown_delay = 0,
            shutdown_timer_handle = None, restart_delay = 1, klipper_restart = False,
            bound_services = [''klipper''], need_scheduled_restart = False,
            restrict_actions = True, last_update_time = 0\<rparr>"

text \<open>
  The service actions of \<^verbatim>\<open>process_bound_services\<close>, as events: a start of every bound
  service when the device is on, a stop when it is off, nothing in any other state.
\<close>

abbreviation (input) service_events :: "'x Device_scheme \<Rightarrow> event list" where
  "service_events d \<equiv>
     (if state d = ''on'' then map (ServiceAction ''start'') (bound_services d)
      else if state d = ''off'' then map (ServiceAction ''stop'') (bound_services d)
      else [])"

definition registry0 :: "unit PrinterPower" where
  "registry0 = \<lparr>devices = [(''plug'', plug)], server = server0\<rparr>"

definition batch_request :: "string \<Rightarrow> WebRequest" where
  "batch_request ep =
     \<lparr>args = [(''plug'', ''''), (''missing'', '''')], endpoint = ep, request_type = POST\<rparr>"

definition env_shutdown :: Env where
  "env_shutdown =
     \<lparr>kconn_state = SHUTDOWN, startup_complete = True, is_printing = False, loop_time = 0\<rparr>"

definition env_ready :: Env where
  "env_ready =
     \<lparr>kconn_state = READY, startup_complete = True, is_printing = False, loop_time = 2\<rparr>"

definition psu :: Device where
  "psu = \<lparr>name = ''psu'', dev_type = ''shelly'', state = ''on'', request_lock = False,
           locked_while_printing = False, off_when_shutdown = True, off_when_shutdown_delay = 2,
           shutdown_timer_handle = None, restart_delay = 1, klipper_restart = False,
           bound_services = [], need_scheduled_restart = False,
           restrict_actions = True, last_update_time = 0\<rparr>"

definition registry_psu :: "unit PrinterPower" where
  "registry_psu = \<lparr>devices = [(''psu'', psu)], server = server0\<rparr>"

definition env_idle :: Env where
  "env_idle =
     \<lparr>kconn_state = READY, startup_complete = True, is_printing = False, loop_time = 1\<rparr>"

definition rf_plug :: TimerDevice where
  "rf_plug = \<lparr>name = ''rf'', dev_type = ''rf'', state = ''off'', request_lock = False,
           locked_while_printing = False, off_when_shutdown = False, off_when_shutdown_delay = 0,
           shutdown_timer_handle = None, restart_delay = 1, klipper_restart = False,
           bound_services = [], need_scheduled_restart = False,
           restrict_actions = True, last_update_time = 0, timer = Some 5, timer_handle = None\<rparr>"

text \<open>The pending timers that will switch the device called \<open>n\<close> off.\<close>

definition auto_off_timers :: "string \<Rightarrow> Server \<Rightarrow> (nat \<times> real \<times> timer_callback) list" where
  "auto_off_timers n s =
     filter (\<lambda>t. snd (snd t) = SetDevicePowerCb n (StrState ''off'')) (timers s)"

text \<open>
  The event loop hands out fresh handles, and every pending auto-off timer of the device
  is the one whose handle the device holds.
\<close>

definition timer_inv :: "'y TimerDevice_scheme \<Rightarrow> Server \<Rightarrow> bool" where
  "timer_inv d s =
     (list_all (\<lambda>t. fst t < next_handle s) (timers s) \<and> distinct (map fst (timers s)) \<and>
      list_all (\<lambda>t. Some (fst t) = timer_handle d) (auto_off_timers (name d) s))"

text \<open>
  An \<^verbatim>\<open>HTTPDevice\<close> whose \<^verbatim>\<open>_send_power_request\<close> reports the state it was asked to set.
\<close>

definition http_echo_driver :: "string option \<Rightarrow> 'x Driver" where
  "http_echo_driver status_reply =
     \<lparr>refresh_status = (\<lambda>env. http_refresh_status status_reply),
      set_power = (\<lambda>env st. http_set_power (Some st) st)\<rparr>"

section \<open>Properties of process_request\<close>

text \<open>
  C4. A request that finds the device in state \<open>init\<close> with the request lock held returns
  \<open>init\<close> at once: it does not wait for the lock, the result mentions neither
  \<open>refresh_status\<close> nor \<open>set_power\<close> of the driver, and the device, with its
  \<open>last_update_time\<close>, and the server are as they were.
\<close>

theorem process_request_init_locked:
  "state d = ''init'' \<Longrightarrow> request_lock d \<Longrightarrow>
   process_request drv env req force (d, s) = (Some (Inr ''init''), d, s)"
  by (simp add: process_request_def)

text \<open>C4 on a device that is initialising while a forced \<open>off\<close> request arrives.\<close>

theorem process_request_init_locked_witness:
  "state (plug\<lparr>state := ''init'', request_lock := True\<rparr>) = ''init'' \<and>
   request_lock (plug\<lparr>state := ''init'', request_lock := True\<rparr>) \<and>
   process_request (http_driver (Some ''on'') (Some ''off'')) env_printing ''off'' True
       (plug\<lparr>state := ''init'', request_lock := True\<rparr>, server0) =
     (Some (Inr ''init''), plug\<lparr>state := ''init'', request_lock := True\<rparr>, server0)"
  using process_request_init_locked
    [of "plug\<lparr>state := ''init'', request_lock := True\<rparr>"
        "http_driver (Some ''on'') (Some ''off'')" env_printing "''off''" True server0]
  by (simp add: plug_def)

text \<open>
  C10. An \<open>on\<close> or \<open>off\<close> request that asks for the state the refresh has just
  produced returns that state. The result is the refreshed device and server after the
  handling of an external change, with the time stamped and the lock released:
  \<open>set_power\<close> is not called, and neither \<open>force\<close>, \<open>locked_while_printing\<close> nor
  \<open>is_printing\<close> is consulted, so no error is raised while printing.
\<close>

theorem process_request_already_in_state:
  "\<not> request_lock d \<Longrightarrow>
   refresh_status drv env (d\<lparr>request_lock := True\<rparr>, s) = (None, d1, s1) \<Longrightarrow>
   req = ''on'' \<or> req = ''off'' \<Longrightarrow> state d1 = req \<Longrightarrow>
   process_request drv env req force (d, s) =
     (case external_change env (state d) req (d1, s1) of
        (d2, s2) \<Rightarrow>
          (Some (Inr req), d2\<lparr>last_update_time := loop_time env, request_lock := False\<rparr>, s2))"
  by (auto simp add: process_request_def process_request_locked_def Let_def split: prod.splits)

text \<open>
  C10 on a device locked while printing, during a print, without \<open>force\<close>: \<open>on\<close> is
  requested of a device that is on.
\<close>

theorem process_request_already_in_state_witness:
  "\<not> request_lock plug \<and>
   refresh_status (http_driver (Some ''on'') None) env_printing
       (plug\<lparr>request_lock := True\<rparr>, server0) = (None, plug\<lparr>request_lock := True\<rparr>, server0) \<and>
   locked_while_printing plug \<and> is_printing env_printing \<and>
   process_request (http_driver (Some ''on'') None) env_printing ''on'' False (plug, server0) =
     (Some (Inr ''on''), plug\<lparr>last_update_time := 10\<rparr>, server0)"
proof -
  have l: "\<not> request_lock plug" by (simp add: plug_def)
  have r: "refresh_status (http_driver (Some ''on'') None) env_printing
       (plug\<lparr>request_lock := True\<rparr>, server0) = (None, plug\<lparr>request_lock := True\<rparr>, server0)"
    by (simp add: http_driver_def http_refresh_status_def plug_def)
  have st: "state (plug\<lparr>request_lock := True\<rparr>) = ''on''" by (simp add: plug_def)
  from process_request_already_in_state [OF l r _ st, of False] l r show ?thesis
    by (simp add: plug_def env_printing_def external_change_def)
qed

text \<open>
  C1 as stated fails: with \<open>locked_while_printing\<close>, an active print and no \<open>force\<close>, the
  request \<open>on\<close> to a device the refresh finds on returns \<open>on\<close> and raises nothing.
\<close>

theorem process_request_locked_while_printing_counterexample:
  "locked_while_printing plug \<and> is_printing env_printing \<and>
   fst (process_request (http_driver (Some ''on'') None) env_printing ''on'' False (plug, server0))
     = Some (Inr ''on'')"
  by (simp add: process_request_def process_request_locked_def http_driver_def
      http_refresh_status_def external_change_def plug_def env_printing_def Let_def)

text \<open>
  C1, amended. With \<open>locked_while_printing\<close>, an active print and no \<open>force\<close>, an \<open>on\<close>
  or \<open>off\<close> request that differs from the state the refresh has just produced fails with
  the error "Unable to change power for <name> while printing". The device and the server
  are as the refresh left them, so \<open>set_power\<close> is not called and the state is the
  refreshed one; the time is stamped and the lock is released.
\<close>

theorem process_request_locked_while_printing:
  "\<not> request_lock d \<Longrightarrow>
   refresh_status drv env (d\<lparr>request_lock := True\<rparr>, s) = (None, d1, s1) \<Longrightarrow>
   req = ''on'' \<or> req = ''off'' \<Longrightarrow> state d1 \<noteq> req \<Longrightarrow>
   locked_while_printing d1 \<Longrightarrow> is_printing env \<Longrightarrow>
   process_request drv env req False (d, s) =
     (Some (Inl (ServerError (''Unable to change power for '' @ name d1 @ '' while printing''))),
      d1\<lparr>last_update_time := loop_time env, request_lock := False\<rparr>, s1)"
  by (auto simp add: process_request_def process_request_locked_def Let_def)

text \<open>C1, amended, on an \<open>off\<close> request to a device that is on during a print.\<close>

theorem process_request_locked_while_printing_witness:
  "\<not> request_lock plug \<and>
   refresh_status (http_driver (Some ''on'') None) env_printing
       (plug\<lparr>request_lock := True\<rparr>, server0) = (None, plug\<lparr>request_lock := True\<rparr>, server0) \<and>
   state (plug\<lparr>request_lock := True\<rparr>) \<noteq> ''off'' \<and>
   locked_while_printing (plug\<lparr>request_lock := True\<rparr>) \<and> is_printing env_printing \<and>
   process_request (http_driver (Some ''on'') None) env_printing ''off'' False (plug, server0) =
     (Some (Inl (ServerError ''Unable to change power for plug while printing'')),
      plug\<lparr>last_update_time := 10\<rparr>, server0)"
proof -
  have l: "\<not> request_lock plug" by (simp add: plug_def)
  have r: "refresh_status (http_driver (Some ''on'') None) env_printing
       (plug\<lparr>request_lock := True\<rparr>, server0) = (None, plug\<lparr>request_lock := True\<rparr>, server0)"
    by (simp add: http_driver_def http_refresh_status_def plug_def)
  have st: "state (plug\<lparr>request_lock := True\<rparr>) \<noteq> ''off''" by (simp add: plug_def)
  have lk: "locked_while_printing (plug\<lparr>request_lock := True\<rparr>)" by (simp add: plug_def)
  have pr: "is_printing env_printing" by (simp add: env_printing_def)
  from process_request_locked_while_printing [OF l r _ st lk pr] l r st lk pr show ?thesis
    by (simp add: plug_def env_printing_def)
qed

section \<open>Side effects of a power change\<close>

lemma foldl_do_service_action:
  "foldl (\<lambda>s' svc. do_service_action action svc s') s svcs =
   s\<lparr>events := events s @ map (ServiceAction action) svcs\<rparr>"
  by (induction svcs arbitrary: s) (simp_all add: do_service_action_def)

lemma process_bound_services_events:
  "process_bound_services (d, s) = (d, s\<lparr>events := events s @ service_events d\<rparr>)"
  by (simp add: process_bound_services_def foldl_do_service_action Let_def)

lemma notify_then_services:
  "(if bound_services d \<noteq> [] then process_bound_services (notify_power_changed (d, s))
    else notify_power_changed (d, s)) =
   (d, s\<lparr>events := events s @ SendEvent ''power:power_changed'' (get_device_info d)
                # service_events d\<rparr>)"
proof (cases "bound_services d = []")
  case True
  then have "service_events d = []" by simp
  with True show ?thesis by (simp add: notify_power_changed_def send_event_def)
next
  case False
  then show ?thesis
    by (simp add: notify_power_changed_def send_event_def process_bound_services_events)
qed

lemma process_power_changed_unfold:
  "process_power_changed env (d, s) =
   (let s1 = s\<lparr>events := events s @ SendEvent ''power:power_changed'' (get_device_info d)
                # service_events d\<rparr>
    in if state d = ''on'' \<and> klipper_restart d then
         if \<not> startup_complete env then (d\<lparr>need_scheduled_restart := True\<rparr>, s1)
         else if kconn_state env = READY then (d\<lparr>need_scheduled_restart := False\<rparr>, s1)
         else (d\<lparr>need_scheduled_restart := False\<rparr>,
               s1\<lparr>timers := timers s1 @ [(next_handle s1, restart_delay d, DoRestartCb ''FIRMWARE_RESTART'')],
                  next_handle := Suc (next_handle s1)\<rparr>)
       else (d, s1))"
proof -
  have n: "notify_power_changed (d, s) = (d, send_event ''power:power_changed'' (get_device_info d) s)"
    by (simp add: notify_power_changed_def)
  have b: "(if bound_services d \<noteq> []
            then process_bound_services (d, send_event ''power:power_changed'' (get_device_info d) s)
            else (d, send_event ''power:power_changed'' (get_device_info d) s)) =
      (d, s\<lparr>events := events s @ SendEvent ''power:power_changed'' (get_device_info d)
                # service_events d\<rparr>)"
    using notify_then_services [of d s] by (simp only: n)
  show ?thesis
    unfolding process_power_changed_def n prod.case b
    by (simp add: schedule_firmware_restart_def delay_callback_def Let_def)
qed


lemma process_request_kept_state:
  assumes l: "\<not> request_lock d"
    and r: "refresh_status drv env (d\<lparr>request_lock := True\<rparr>, s) = (None, d1, s1)"
    and rq: "req = ''status'' \<or> (req = ''on'' \<or> req = ''off'') \<and> state d1 = req"
  shows "process_request drv env req force (d, s) =
      (case external_change env (state d) (state d1) (d1, s1) of
         (d2, s2) \<Rightarrow>
           (Some (Inr (state d1)),
            d2\<lparr>last_update_time := loop_time env, request_lock := False\<rparr>, s2))"
proof -
  have body: "process_request_locked drv env req force (d\<lparr>request_lock := True\<rparr>, s) =
      (Inr (state d1), external_change env (state d) (state d1) (d1, s1))"
    using rq
  proof
    assume "req = ''status''"
    then show ?thesis by (simp add: process_request_locked_def r Let_def)
  next
    assume "(req = ''on'' \<or> req = ''off'') \<and> state d1 = req"
    then show ?thesis by (auto simp add: process_request_locked_def r Let_def)
  qed
  show ?thesis
    using l by (simp add: process_request_def body split: prod.splits)
qed

section \<open>Properties of set_device_power\<close>

lemma lower_TRUE: "lower ''TRUE'' = ''true''"
  by code_simp

lemma lower_on: "lower ''on'' = ''on''"
  by code_simp

text \<open>
  C8. \<open>set_device_power\<close> with the string \<open>TRUE\<close>, with the bool \<open>True\<close> and with the
  string \<open>on\<close> do the same. A string is lowercased and \<open>true\<close> and \<open>false\<close> become
  \<open>on\<close> and \<open>off\<close>. The call queues one \<open>process_request\<close> when the normalised
  request is \<open>on\<close>, \<open>off\<close> or \<open>toggle\<close> and the device is registered; in every other
  case it returns with everything unchanged. It has no failing exit.
\<close>

theorem set_device_power_normalized:
  "set_device_power dev (StrState ''TRUE'') force w = set_device_power dev (BoolState True) force w \<and>
   set_device_power dev (BoolState True) force w = set_device_power dev (StrState ''on'') force w \<and>
   normalize_request (StrState str) =
     (if lower str = ''true'' then ''on'' else if lower str = ''false'' then ''off'' else lower str) \<and>
   normalize_request (BoolState b) = (if b then ''on'' else ''off'') \<and>
   set_device_power dev st force w =
     (if normalize_request st \<in> {''on'', ''off'', ''toggle''} \<and> map_of (devices w) dev \<noteq> None
      then w\<lparr>server := (server w)\<lparr>callbacks :=
                 callbacks (server w) @ [(dev, normalize_request st, force)]\<rparr>\<rparr>
      else w)"
proof -
  have n1: "normalize_request (StrState ''TRUE'') = ''on''"
    by (simp add: normalize_request_def lower_TRUE)
  have n2: "normalize_request (StrState ''on'') = ''on''"
    by (simp add: normalize_request_def lower_on)
  have n3: "normalize_request (BoolState True) = ''on''"
    by (simp add: normalize_request_def)
  have a: "set_device_power dev (StrState ''TRUE'') force w = set_device_power dev (BoolState True) force w"
    by (simp only: set_device_power_def n1 n3)
  have b: "set_device_power dev (BoolState True) force w = set_device_power dev (StrState ''on'') force w"
    by (simp only: set_device_power_def n2 n3)
  have c: "normalize_request (StrState str) =
     (if lower str = ''true'' then ''on'' else if lower str = ''false'' then ''off'' else lower str)"
    by (simp add: normalize_request_def Let_def)
  have d: "normalize_request (BoolState b) = (if b then ''on'' else ''off'')"
    by (simp add: normalize_request_def)
  have e: "set_device_power dev st force w =
     (if normalize_request st \<in> {''on'', ''off'', ''toggle''} \<and> map_of (devices w) dev \<noteq> None
      then w\<lparr>server := (server w)\<lparr>callbacks :=
                 callbacks (server w) @ [(dev, normalize_request st, force)]\<rparr>\<rparr>
      else w)"
    by (simp add: set_device_power_def Let_def register_callback_def)
  from a b c d e show ?thesis by blast
qed

section \<open>The state a request returns\<close>

text \<open>A request that returns hands back the state the device is left in.\<close>

lemma state_process_power_changed:
  "state (fst (process_power_changed env (d, s))) = state d"
  by (simp add: process_power_changed_unfold Let_def)

lemma state_external_change:
  "state (fst (external_change env b c (d, s))) = state d"
  by (simp add: external_change_def notify_power_changed_def state_process_power_changed)

lemma process_request_locked_toggle:
  "refresh_status drv env ds = (e, d1, s1) \<Longrightarrow>
   process_request_locked drv env ''toggle'' force ds =
   process_request_locked drv env (if state d1 = ''off'' then ''on'' else ''off'') force ds"
  by (cases e; cases "state d1 = ''off''") (simp_all add: process_request_locked_def Let_def)

lemma set_power_returns_state:
  assumes "(case set_power drv env rq (d1, s1) of
             (Some e, d2, s2) \<Rightarrow> (Inl e, d2, s2)
           | (None, d2, s2) \<Rightarrow> (Inr (state d2), process_power_changed env (d2, s2)))
           = (Inr r, d', s')"
  shows "state d' = r"
proof -
  obtain e2 d2 s2 where sp: "set_power drv env rq (d1, s1) = (e2, d2, s2)"
    by (cases "set_power drv env rq (d1, s1)") auto
  show ?thesis
  proof (cases e2)
    case (Some err)
    with assms sp show ?thesis by simp
  next
    case None
    with assms sp have "r = state d2" and "d' = fst (process_power_changed env (d2, s2))"
      by simp_all
    then show ?thesis by (simp add: state_process_power_changed)
  qed
qed

lemma kept_returns_state:
  assumes r: "state d1 = r" and e: "external_change env b c (d1, s1) = (d', s')"
  shows "state d' = r"
proof -
  have "state (fst (external_change env b c (d1, s1))) = state d1"
    by (rule state_external_change)
  then have "state (fst (d', s')) = state d1" by (simp only: e)
  with r show ?thesis by simp
qed

lemma process_request_locked_onoff:
  assumes rq: "rq = ''on'' \<or> rq = ''off''"
    and rf: "refresh_status drv env ds = (None, d1, s1)"
  shows "process_request_locked drv env rq force ds =
     (if rq = state d1 then
        (Inr (state d1), external_change env (state (fst ds)) (state d1) (d1, s1))
      else if \<not> force \<and> locked_while_printing d1 \<and> is_printing env then
        (Inl (ServerError (''Unable to change power for '' @ name d1 @ '' while printing'')), d1, s1)
      else
        (case set_power drv env rq (d1, s1) of
           (Some e, d2, s2) \<Rightarrow> (Inl e, d2, s2)
         | (None, d2, s2) \<Rightarrow> (Inr (state d2), process_power_changed env (d2, s2))))"
  using rq
proof
  assume "rq = ''on''"
  then show ?thesis by (simp add: process_request_locked_def rf Let_def)
next
  assume "rq = ''off''"
  then show ?thesis by (simp add: process_request_locked_def rf Let_def)
qed


lemma process_request_locked_status:
  assumes rf: "refresh_status drv env ds = (None, d1, s1)"
  shows "process_request_locked drv env ''status'' force ds =
        (Inr (state d1), external_change env (state (fst ds)) (state d1) (d1, s1))"
  by (simp add: process_request_locked_def rf Let_def)

lemma process_request_locked_other:
  assumes rf: "refresh_status drv env ds = (None, d1, s1)"
    and "rq \<noteq> ''toggle''" "rq \<noteq> ''on''" "rq \<noteq> ''off''" "rq \<noteq> ''status''"
  shows "process_request_locked drv env rq force ds =
        (Inl (ServerError (''Unsupported power request: '' @ rq)), d1, s1)"
  using assms(2-) by (simp add: process_request_locked_def rf Let_def)

lemma process_request_locked_refresh_error:
  assumes rf: "refresh_status drv env ds = (Some e, d1, s1)"
  shows "process_request_locked drv env rq force ds = (Inl e, d1, s1)"
  by (simp add: process_request_locked_def rf Let_def)

lemma onoff_returns_state:
  assumes rq: "rq = ''on'' \<or> rq = ''off''"
    and rf: "refresh_status drv env ds = (None, d1, s1)"
    and res: "process_request_locked drv env rq force ds = (Inr r, d', s')"
  shows "state d' = r"
proof (cases "rq = state d1")
  case True
  with res have "(Inr (state d1) :: error + string,
        external_change env (state (fst ds)) (state d1) (d1, s1)) = (Inr r, d', s')"
    unfolding process_request_locked_onoff [OF rq rf] by (simp only: simp_thms if_True)
  then have "state d1 = r"
    and "external_change env (state (fst ds)) (state d1) (d1, s1) = (d', s')"
    by auto
  then show ?thesis by (rule kept_returns_state)
next
  case False
  show ?thesis
  proof (cases "\<not> force \<and> locked_while_printing d1 \<and> is_printing env")
    case True
    with False res show ?thesis
      unfolding process_request_locked_onoff [OF rq rf] by simp
  next
    case nb: False
    from res have "(case set_power drv env rq (d1, s1) of
           (Some e, d2, s2) \<Rightarrow> (Inl e, d2, s2)
         | (None, d2, s2) \<Rightarrow> (Inr (state d2), process_power_changed env (d2, s2))) = (Inr r, d', s')"
      unfolding process_request_locked_onoff [OF rq rf] using False nb by (simp only: if_False)
    then show ?thesis by (rule set_power_returns_state)
  qed
qed


lemma process_request_locked_returns_state:
  assumes res: "process_request_locked drv env req force ds = (Inr r, d', s')"
  shows "state d' = r"
proof -
  obtain e d1 s1 where rf: "refresh_status drv env ds = (e, d1, s1)"
    by (cases "refresh_status drv env ds") auto
  show ?thesis
  proof (cases e)
    case (Some err)
    with rf res show ?thesis by (simp add: process_request_locked_refresh_error)
  next
    case None
    with rf have rf': "refresh_status drv env ds = (None, d1, s1)" by simp
    consider (tg) "req = ''toggle''" | (oo) "req = ''on'' \<or> req = ''off''" | (st) "req = ''status''"
      | (other) "req \<noteq> ''toggle''" "req \<noteq> ''on''" "req \<noteq> ''off''" "req \<noteq> ''status''"
      by blast
    then show ?thesis
    proof cases
      case tg
      have "process_request_locked drv env (if state d1 = ''off'' then ''on'' else ''off'') force ds
              = (Inr r, d', s')"
        using res process_request_locked_toggle [OF rf', of force] by (simp only: tg)
      moreover have "(if state d1 = ''off'' then ''on'' else ''off'') = ''on''
          \<or> (if state d1 = ''off'' then ''on'' else ''off'') = ''off''"
        by simp
      ultimately show ?thesis using rf' by (rule onoff_returns_state [rotated 2])
    next
      case oo
      then show ?thesis using rf' res by (rule onoff_returns_state)
    next
      case st
      have "(Inr (state d1) :: error + string,
          external_change env (state (fst ds)) (state d1) (d1, s1)) = (Inr r, d', s')"
        using res unfolding st process_request_locked_status [OF rf'] .
      then have "state d1 = r"
        and "external_change env (state (fst ds)) (state d1) (d1, s1) = (d', s')"
        by auto
      then show ?thesis by (rule kept_returns_state)
    next
      case other
      with res show ?thesis by (simp add: process_request_locked_other [OF rf'])
    qed
  qed
qed

lemma process_request_returns_state:
  assumes "process_request drv env req force (d, s) = (Some (Inr r), d', s')"
  shows "state d' = r"
proof (cases "request_lock d")
  case True
  with assms show ?thesis by (auto simp add: process_request_def split: if_splits)
next
  case nl: False
  obtain r1 d1 s1 where b: "process_request_locked drv env req force (d\<lparr>request_lock := True\<rparr>, s) = (r1, d1, s1)"
    by (cases "process_request_locked drv env req force (d\<lparr>request_lock := True\<rparr>, s)") auto
  with nl assms have "r1 = Inr r" and "d' = d1\<lparr>last_update_time := loop_time env, request_lock := False\<rparr>"
    by (simp_all add: process_request_def)
  with process_request_locked_returns_state [of drv env req force _ r d1 s1] b
  show ?thesis by simp
qed

section \<open>Toggle requests and external changes\<close>

text \<open>
  C2. A \<open>toggle\<close> request that gets the lock and whose refresh returns is resolved from
  \<open>d1\<close>, the device as the refresh has just left it: the request is \<open>on\<close> when the
  refreshed state is \<open>off\<close> and \<open>off\<close> otherwise. The outcome is spelled out. Unless the
  printing lock refuses it, \<open>set_power\<close> is called with that request on the refreshed
  device, and its error, or the state it leaves and the side effects of the power change,
  are the result. The stored state \<open>state d\<close> does not occur in the outcome. The whole call
  equals the \<open>on\<close> or \<open>off\<close> call so chosen.
\<close>

theorem process_request_toggle:
  "\<not> request_lock d \<Longrightarrow>
   refresh_status drv env (d\<lparr>request_lock := True\<rparr>, s) = (None, d1, s1) \<Longrightarrow>
   process_request drv env ''toggle'' force (d, s) =
     (if \<not> force \<and> locked_while_printing d1 \<and> is_printing env then
        (Some (Inl (ServerError (''Unable to change power for '' @ name d1 @ '' while printing''))),
         d1\<lparr>last_update_time := loop_time env, request_lock := False\<rparr>, s1)
      else
        (case set_power drv env (if state d1 = ''off'' then ''on'' else ''off'') (d1, s1) of
           (Some e, d2, s2) \<Rightarrow>
             (Some (Inl e), d2\<lparr>last_update_time := loop_time env, request_lock := False\<rparr>, s2)
         | (None, d2, s2) \<Rightarrow>
             (case process_power_changed env (d2, s2) of
                (d3, s3) \<Rightarrow>
                  (Some (Inr (state d2)),
                   d3\<lparr>last_update_time := loop_time env, request_lock := False\<rparr>, s3)))) \<and>
   process_request drv env ''toggle'' force (d, s) =
     process_request drv env (if state d1 = ''off'' then ''on'' else ''off'') force (d, s)"
proof -
  assume l: "\<not> request_lock d"
    and r: "refresh_status drv env (d\<lparr>request_lock := True\<rparr>, s) = (None, d1, s1)"
  define tgt where "tgt = (if state d1 = ''off'' then ''on'' else ''off'')"
  have t: "tgt = ''on'' \<or> tgt = ''off''" and ne: "tgt \<noteq> state d1"
    by (auto simp add: tgt_def)
  have tg: "process_request_locked drv env ''toggle'' force (d\<lparr>request_lock := True\<rparr>, s) =
      process_request_locked drv env tgt force (d\<lparr>request_lock := True\<rparr>, s)"
    unfolding tgt_def by (rule process_request_locked_toggle [OF r])
  have eq: "process_request drv env ''toggle'' force (d, s) = process_request drv env tgt force (d, s)"
    by (simp add: process_request_def tg)
  have body: "process_request_locked drv env tgt force (d\<lparr>request_lock := True\<rparr>, s) =
     (if \<not> force \<and> locked_while_printing d1 \<and> is_printing env then
        (Inl (ServerError (''Unable to change power for '' @ name d1 @ '' while printing'')), d1, s1)
      else
        (case set_power drv env tgt (d1, s1) of
           (Some e, d2, s2) \<Rightarrow> (Inl e, d2, s2)
         | (None, d2, s2) \<Rightarrow> (Inr (state d2), process_power_changed env (d2, s2))))"
    using ne by (simp add: process_request_locked_onoff [OF t r])
  have out: "process_request drv env tgt force (d, s) =
     (if \<not> force \<and> locked_while_printing d1 \<and> is_printing env then
        (Some (Inl (ServerError (''Unable to change power for '' @ name d1 @ '' while printing''))),
         d1\<lparr>last_update_time := loop_time env, request_lock := False\<rparr>, s1)
      else
        (case set_power drv env tgt (d1, s1) of
           (Some e, d2, s2) \<Rightarrow>
             (Some (Inl e), d2\<lparr>last_update_time := loop_time env, request_lock := False\<rparr>, s2)
         | (None, d2, s2) \<Rightarrow>
             (case process_power_changed env (d2, s2) of
                (d3, s3) \<Rightarrow>
                  (Some (Inr (state d2)),
                   d3\<lparr>last_update_time := loop_time env, request_lock := False\<rparr>, s3))))"
    using l by (simp add: process_request_def body split: prod.splits option.splits)
  from eq out show ?thesis unfolding tgt_def by simp
qed

text \<open>
  C2 on a device stored as \<open>off\<close> that the refresh finds \<open>on\<close>, with a driver that
  reports the state it is asked to set: the toggle calls \<open>set_power\<close> with \<open>off\<close>, stops
  the bound service and returns \<open>off\<close>. Resolved from the stored state it would have been
  the request \<open>on\<close>, which returns \<open>on\<close>.
\<close>

theorem process_request_toggle_witness:
  "\<not> request_lock (plug\<lparr>state := ''off''\<rparr>) \<and>
   refresh_status (http_echo_driver (Some ''on'')) env_idle
       (plug\<lparr>state := ''off'', request_lock := True\<rparr>, server0) =
     (None, plug\<lparr>state := ''on'', request_lock := True\<rparr>, server0) \<and>
   process_request (http_echo_driver (Some ''on'')) env_idle ''toggle'' False
       (plug\<lparr>state := ''off''\<rparr>, server0) =
     (Some (Inr ''off''), plug\<lparr>state := ''off'', last_update_time := 1\<rparr>,
      server0\<lparr>events :=
        [SendEvent ''power:power_changed''
           \<lparr>device = ''plug'', status = ''off'', info_locked_while_printing = True,
              info_type = ''tasmota''\<rparr>,
         ServiceAction ''stop'' ''klipper'']\<rparr>) \<and>
   fst (process_request (http_echo_driver (Some ''on'')) env_idle ''on'' False
       (plug\<lparr>state := ''off''\<rparr>, server0)) = Some (Inr ''on'')"
proof -
  have l: "\<not> request_lock (plug\<lparr>state := ''off''\<rparr>)" by (simp add: plug_def)
  have r: "refresh_status (http_echo_driver (Some ''on'')) env_idle
       ((plug\<lparr>state := ''off''\<rparr>)\<lparr>request_lock := True\<rparr>, server0) =
     (None, plug\<lparr>state := ''on'', request_lock := True\<rparr>, server0)"
    by (simp add: http_echo_driver_def http_refresh_status_def plug_def)
  have sp: "set_power (http_echo_driver (Some ''on'')) env_idle ''off''
        (plug\<lparr>state := ''on'', request_lock := True\<rparr>, server0) =
      (None, plug\<lparr>state := ''off'', request_lock := True\<rparr>, server0)"
    by (simp add: http_echo_driver_def http_set_power_def plug_def)
  have pc: "process_power_changed env_idle (plug\<lparr>state := ''off'', request_lock := True\<rparr>, server0) =
      (plug\<lparr>state := ''off'', request_lock := True\<rparr>,
       server0\<lparr>events :=
        [SendEvent ''power:power_changed''
           \<lparr>device = ''plug'', status = ''off'', info_locked_while_printing = True,
              info_type = ''tasmota''\<rparr>,
         ServiceAction ''stop'' ''klipper'']\<rparr>)"
    by (simp add: process_power_changed_unfold plug_def server0_def get_device_info_def Let_def)
  have t: "process_request (http_echo_driver (Some ''on'')) env_idle ''toggle'' False
       (plug\<lparr>state := ''off''\<rparr>, server0) =
     (Some (Inr ''off''), plug\<lparr>state := ''off'', last_update_time := 1\<rparr>,
      server0\<lparr>events :=
        [SendEvent ''power:power_changed''
           \<lparr>device = ''plug'', status = ''off'', info_locked_while_printing = True,
              info_type = ''tasmota''\<rparr>,
         ServiceAction ''stop'' ''klipper'']\<rparr>)"
    using process_request_toggle [OF l r, of False, THEN conjunct1]
    by (simp add: sp pc) (simp add: plug_def env_idle_def)
  have o: "fst (process_request (http_echo_driver (Some ''on'')) env_idle ''on'' False
       (plug\<lparr>state := ''off''\<rparr>, server0)) = Some (Inr ''on'')"
    by (simp add: process_request_def process_request_locked_def http_echo_driver_def
        http_refresh_status_def external_change_def notify_power_changed_def plug_def Let_def)
  from l r t o show ?thesis by simp
qed

text \<open>
  C3 as stated fails: the refresh finds a device stored as \<open>on\<close> to be \<open>off\<close>, and the
  request \<open>on\<close> is refused by the printing lock, so no transition is applied. With
  \<open>restrict_actions\<close> or without it the request fails and the server is as it was: no
  \<open>power:power_changed\<close> event is sent.
\<close>

theorem process_request_external_change_counterexample:
  "state plug \<noteq> ''off'' \<and> restrict_actions plug \<and>
   process_request (http_driver (Some ''off'') None) env_printing ''on'' False (plug, server0) =
     (Some (Inl (ServerError ''Unable to change power for plug while printing'')),
      plug\<lparr>state := ''off'', last_update_time := 10\<rparr>, server0) \<and>
   events server0 = [] \<and>
   process_request (http_driver (Some ''off'') None) env_printing ''on'' False
       (plug\<lparr>restrict_actions := False\<rparr>, server0) =
     (Some (Inl (ServerError ''Unable to change power for plug while printing'')),
      plug\<lparr>state := ''off'', restrict_actions := False, last_update_time := 10\<rparr>, server0)"
  by (simp add: process_request_def process_request_locked_def http_driver_def
      http_refresh_status_def plug_def env_printing_def server0_def Let_def)

text \<open>
  C3, amended. The refresh has changed the stored state. A request that keeps the refreshed
  state (a \<open>status\<close> request, or an \<open>on\<close> or \<open>off\<close> request for the state the device is
  found in) returns that state: with \<open>restrict_actions\<close> the only effect is one
  \<open>power:power_changed\<close> event; no service action, no restart flag, no timer. Without
  it the effect is that of \<open>process_power_changed\<close>, which is spelled out: the event,
  then a start (device on) or stop (device off) of every bound service in order, then,
  for a device that is on with \<open>klipper_restart\<close>, the pending-restart flag or the restart
  timer. An \<open>on\<close> or \<open>off\<close> request for another state that the printing lock refuses,
  and an unsupported request, fail with the server as the refresh left it: nothing is
  sent and no side effect runs.
\<close>

theorem process_request_external_change:
  "\<not> request_lock d \<Longrightarrow>
   refresh_status drv env (d\<lparr>request_lock := True\<rparr>, s) = (None, d1, s1) \<Longrightarrow>
   state d1 \<noteq> state d \<Longrightarrow>
   (req = ''status'' \<or> (req = ''on'' \<or> req = ''off'') \<and> state d1 = req \<longrightarrow>
      process_request drv env req force (d, s) =
        (case (if restrict_actions d1
               then (d1, s1\<lparr>events := events s1 @
                             [SendEvent ''power:power_changed'' (get_device_info d1)]\<rparr>)
               else process_power_changed env (d1, s1)) of
           (d2, s2) \<Rightarrow>
             (Some (Inr (state d1)),
              d2\<lparr>last_update_time := loop_time env, request_lock := False\<rparr>, s2))) \<and>
   process_power_changed env (d1, s1) =
     (let s2 = s1\<lparr>events := events s1 @ SendEvent ''power:power_changed'' (get_device_info d1) #
                  (if state d1 = ''on'' then map (ServiceAction ''start'') (bound_services d1)
                   else if state d1 = ''off'' then map (ServiceAction ''stop'') (bound_services d1)
                   else [])\<rparr>
      in if state d1 = ''on'' \<and> klipper_restart d1 then
           if \<not> startup_complete env then (d1\<lparr>need_scheduled_restart := True\<rparr>, s2)
           else if kconn_state env = READY then (d1\<lparr>need_scheduled_restart := False\<rparr>, s2)
           else (d1\<lparr>need_scheduled_restart := False\<rparr>,
                 s2\<lparr>timers := timers s2 @
                       [(next_handle s2, restart_delay d1, DoRestartCb ''FIRMWARE_RESTART'')],
                    next_handle := Suc (next_handle s2)\<rparr>)
         else (d1, s2)) \<and>
   ((req = ''on'' \<or> req = ''off'') \<and> state d1 \<noteq> req \<and> \<not> force \<and>
    locked_while_printing d1 \<and> is_printing env \<longrightarrow>
      process_request drv env req force (d, s) =
        (Some (Inl (ServerError (''Unable to change power for '' @ name d1 @ '' while printing''))),
         d1\<lparr>last_update_time := loop_time env, request_lock := False\<rparr>, s1)) \<and>
   (req \<noteq> ''toggle'' \<and> req \<noteq> ''on'' \<and> req \<noteq> ''off'' \<and> req \<noteq> ''status'' \<longrightarrow>
      process_request drv env req force (d, s) =
        (Some (Inl (ServerError (''Unsupported power request: '' @ req))),
         d1\<lparr>last_update_time := loop_time env, request_lock := False\<rparr>, s1))"
proof -
  assume l: "\<not> request_lock d"
    and r: "refresh_status drv env (d\<lparr>request_lock := True\<rparr>, s) = (None, d1, s1)"
    and ch: "state d1 \<noteq> state d"
  have ext: "external_change env (state d) (state d1) (d1, s1) =
      (if restrict_actions d1
       then (d1, s1\<lparr>events := events s1 @
                     [SendEvent ''power:power_changed'' (get_device_info d1)]\<rparr>)
       else process_power_changed env (d1, s1))"
    using ch by (simp add: external_change_def notify_power_changed_def send_event_def)
  have a: "req = ''status'' \<or> (req = ''on'' \<or> req = ''off'') \<and> state d1 = req \<longrightarrow>
      process_request drv env req force (d, s) =
        (case (if restrict_actions d1
               then (d1, s1\<lparr>events := events s1 @
                             [SendEvent ''power:power_changed'' (get_device_info d1)]\<rparr>)
               else process_power_changed env (d1, s1)) of
           (d2, s2) \<Rightarrow>
             (Some (Inr (state d1)),
              d2\<lparr>last_update_time := loop_time env, request_lock := False\<rparr>, s2))"
  proof
    assume rq: "req = ''status'' \<or> (req = ''on'' \<or> req = ''off'') \<and> state d1 = req"
    show "process_request drv env req force (d, s) =
        (case (if restrict_actions d1
               then (d1, s1\<lparr>events := events s1 @
                             [SendEvent ''power:power_changed'' (get_device_info d1)]\<rparr>)
               else process_power_changed env (d1, s1)) of
           (d2, s2) \<Rightarrow>
             (Some (Inr (state d1)),
              d2\<lparr>last_update_time := loop_time env, request_lock := False\<rparr>, s2))"
      using process_request_kept_state [OF l r rq, of force] by (simp only: ext)
  qed
  have c: "(req = ''on'' \<or> req = ''off'') \<and> state d1 \<noteq> req \<and> \<not> force \<and>
    locked_while_printing d1 \<and> is_printing env \<longrightarrow>
      process_request drv env req force (d, s) =
        (Some (Inl (ServerError (''Unable to change power for '' @ name d1 @ '' while printing''))),
         d1\<lparr>last_update_time := loop_time env, request_lock := False\<rparr>, s1)"
  proof
    assume h: "(req = ''on'' \<or> req = ''off'') \<and> state d1 \<noteq> req \<and> \<not> force \<and>
      locked_while_printing d1 \<and> is_printing env"
    then have oo: "req = ''on'' \<or> req = ''off''" and ne: "req \<noteq> state d1"
      and g: "\<not> force \<and> locked_while_printing d1 \<and> is_printing env" by auto
    have "process_request_locked drv env req force (d\<lparr>request_lock := True\<rparr>, s) =
        (Inl (ServerError (''Unable to change power for '' @ name d1 @ '' while printing'')), d1, s1)"
      using ne g by (simp add: process_request_locked_onoff [OF oo r])
    then show "process_request drv env req force (d, s) =
        (Some (Inl (ServerError (''Unable to change power for '' @ name d1 @ '' while printing''))),
         d1\<lparr>last_update_time := loop_time env, request_lock := False\<rparr>, s1)"
      using l by (simp add: process_request_def)
  qed
  have e: "req \<noteq> ''toggle'' \<and> req \<noteq> ''on'' \<and> req \<noteq> ''off'' \<and> req \<noteq> ''status'' \<longrightarrow>
      process_request drv env req force (d, s) =
        (Some (Inl (ServerError (''Unsupported power request: '' @ req))),
         d1\<lparr>last_update_time := loop_time env, request_lock := False\<rparr>, s1)"
  proof
    assume h: "req \<noteq> ''toggle'' \<and> req \<noteq> ''on'' \<and> req \<noteq> ''off'' \<and> req \<noteq> ''status''"
    then have "process_request_locked drv env req force (d\<lparr>request_lock := True\<rparr>, s) =
        (Inl (ServerError (''Unsupported power request: '' @ req)), d1, s1)"
      by (simp add: process_request_locked_other [OF r])
    then show "process_request drv env req force (d, s) =
        (Some (Inl (ServerError (''Unsupported power request: '' @ req))),
         d1\<lparr>last_update_time := loop_time env, request_lock := False\<rparr>, s1)"
      using l by (simp add: process_request_def)
  qed
  from a process_power_changed_unfold [of env d1 s1] c e show ?thesis by (intro conjI)
qed

text \<open>
  C3, amended, on a device stored as on that the refresh finds off, with
  \<open>restrict_actions\<close>, during a print: the status request sends the event and starts or
  stops no service; the request \<open>on\<close> and the request \<open>reboot\<close> fail and send nothing.
\<close>

theorem process_request_external_change_witness:
  "\<not> request_lock plug \<and>
   refresh_status (http_driver (Some ''off'') None) env_printing
       (plug\<lparr>request_lock := True\<rparr>, server0) =
     (None, plug\<lparr>state := ''off'', request_lock := True\<rparr>, server0) \<and>
   state (plug\<lparr>state := ''off'', request_lock := True\<rparr>) \<noteq> state plug \<and>
   restrict_actions (plug\<lparr>state := ''off'', request_lock := True\<rparr>) \<and>
   process_request (http_driver (Some ''off'') None) env_printing ''status'' False (plug, server0) =
     (Some (Inr ''off''), plug\<lparr>state := ''off'', last_update_time := 10\<rparr>,
      server0\<lparr>events := [SendEvent ''power:power_changed''
          \<lparr>device = ''plug'', status = ''off'', info_locked_while_printing = True,
             info_type = ''tasmota''\<rparr>]\<rparr>) \<and>
   process_request (http_driver (Some ''off'') None) env_printing ''on'' False (plug, server0) =
     (Some (Inl (ServerError ''Unable to change power for plug while printing'')),
      plug\<lparr>state := ''off'', last_update_time := 10\<rparr>, server0) \<and>
   process_request (http_driver (Some ''off'') None) env_printing ''reboot'' False (plug, server0) =
     (Some (Inl (ServerError ''Unsupported power request: reboot'')),
      plug\<lparr>state := ''off'', last_update_time := 10\<rparr>, server0)"
proof -
  have l: "\<not> request_lock plug" by (simp add: plug_def)
  have r: "refresh_status (http_driver (Some ''off'') None) env_printing
       (plug\<lparr>request_lock := True\<rparr>, server0) =
     (None, plug\<lparr>state := ''off'', request_lock := True\<rparr>, server0)"
    by (simp add: http_driver_def http_refresh_status_def plug_def)
  have ch: "state (plug\<lparr>state := ''off'', request_lock := True\<rparr>) \<noteq> state plug"
    by (simp add: plug_def)
  have ra: "restrict_actions (plug\<lparr>state := ''off'', request_lock := True\<rparr>)"
    by (simp add: plug_def)
  have st: "process_request (http_driver (Some ''off'') None) env_printing ''status'' False (plug, server0) =
     (Some (Inr ''off''), plug\<lparr>state := ''off'', last_update_time := 10\<rparr>,
      server0\<lparr>events := [SendEvent ''power:power_changed''
          \<lparr>device = ''plug'', status = ''off'', info_locked_while_printing = True,
             info_type = ''tasmota''\<rparr>]\<rparr>)"
    using process_request_external_change [OF l r ch, of "''status''" False, THEN conjunct1]
    by (simp add: plug_def env_printing_def server0_def get_device_info_def)
  have onr: "process_request (http_driver (Some ''off'') None) env_printing ''on'' False (plug, server0) =
     (Some (Inl (ServerError ''Unable to change power for plug while printing'')),
      plug\<lparr>state := ''off'', last_update_time := 10\<rparr>, server0)"
    using process_request_external_change [OF l r ch, of "''on''" False,
        THEN conjunct2, THEN conjunct2, THEN conjunct1]
    by (simp add: plug_def env_printing_def)
  have un: "process_request (http_driver (Some ''off'') None) env_printing ''reboot'' False (plug, server0) =
     (Some (Inl (ServerError ''Unsupported power request: reboot'')),
      plug\<lparr>state := ''off'', last_update_time := 10\<rparr>, server0)"
    using process_request_external_change [OF l r ch, of "''reboot''" False,
        THEN conjunct2, THEN conjunct2, THEN conjunct2]
    by (simp add: plug_def env_printing_def)
  from l r ch ra st onr un show ?thesis by simp
qed

section \<open>Properties of the request handlers\<close>




lemma request_device_frame:
  assumes "request_device drv env key dev req force w = (r, w')"
    and "n \<noteq> key"
  shows "map_of (devices w') n = map_of (devices w) n"
  using assms
  by (auto simp add: request_device_def AList.update_conv' split: prod.splits)

lemma request_device_state:
  assumes "request_device drv env key dev req force w = (Some (Inr r), w')"
  shows "\<exists>d'. map_of (devices w') key = Some d' \<and> state d' = r"
proof -
  obtain x d' s' where p: "process_request drv env req force (dev, server w) = (x, d', s')"
    by (cases "process_request drv env req force (dev, server w)") auto
  with assms have x: "x = Some (Inr r)" and w': "w' = w\<lparr>devices := AList.update key d' (devices w), server := s'\<rparr>"
    by (simp_all add: request_device_def)
  from p x have "state d' = r" by (simp add: process_request_returns_state)
  moreover from w' have "map_of (devices w') key = Some d'" by (simp add: AList.update_conv')
  ultimately show ?thesis by blast
qed

lemma batch_loop_Cons_known:
  assumes "map_of (devices w) n = Some dev"
    and "batch_loop drvs env req (n # ns) acc w = (Some (Inr result), w')"
  obtains r w1 where "request_device (drvs n) env n dev req False w = (Some (Inr r), w1)"
    and "batch_loop drvs env req ns (AList.update n r acc) w1 = (Some (Inr result), w')"
proof -
  obtain x w1 where rd: "request_device (drvs n) env n dev req False w = (x, w1)"
    by (cases "request_device (drvs n) env n dev req False w") auto
  show ?thesis
  proof (cases x)
    case None
    with assms rd show ?thesis by simp
  next
    case (Some y)
    show ?thesis
    proof (cases y)
      case (Inl e)
      with Some assms rd show ?thesis by simp
    next
      case (Inr r)
      with Some assms rd that show ?thesis by simp
    qed
  qed
qed

lemma batch_loop_frame:
  "batch_loop drvs env req ns acc w = (Some (Inr result), w') \<Longrightarrow> n \<notin> set ns \<Longrightarrow>
   map_of (devices w') n = map_of (devices w) n \<and> map_of result n = map_of acc n"
proof (induction ns arbitrary: acc w)
  case Nil
  then show ?case by simp
next
  case (Cons m ns)
  then have nm: "n \<noteq> m" and nn: "n \<notin> set ns" by auto
  show ?case
  proof (cases "map_of (devices w) m")
    case None
    with Cons.prems have "batch_loop drvs env req ns (AList.update m ''device_not_found'' acc) w
        = (Some (Inr result), w')" by simp
    from Cons.IH [OF this nn] nm show ?thesis by (simp add: AList.update_conv')
  next
    case (Some dev)
    from batch_loop_Cons_known [OF Some Cons.prems(1)] obtain r w1
      where rd: "request_device (drvs m) env m dev req False w = (Some (Inr r), w1)"
        and rest: "batch_loop drvs env req ns (AList.update m r acc) w1 = (Some (Inr result), w')"
      by blast
    from Cons.IH [OF rest nn] request_device_frame [OF rd nm] nm
    show ?thesis by (simp add: AList.update_conv')
  qed
qed

lemma batch_loop_keys:
  "batch_loop drvs env req ns acc w = (Some (Inr result), w') \<Longrightarrow>
   distinct (map fst acc @ ns) \<Longrightarrow> map fst result = map fst acc @ ns"
proof (induction ns arbitrary: acc w)
  case Nil
  then show ?case by simp
next
  case (Cons m ns)
  then have fresh: "m \<notin> set (map fst acc)" by auto
  have d: "distinct (map fst (AList.update m v acc) @ ns)" for v
    using Cons.prems(2) by (auto simp add: AList.update_keys)
  have k: "map fst (AList.update m v acc) @ ns = map fst acc @ m # ns" for v
    using fresh by (simp add: AList.update_keys)
  show ?case
  proof (cases "map_of (devices w) m")
    case None
    with Cons.prems have "batch_loop drvs env req ns (AList.update m ''device_not_found'' acc) w
        = (Some (Inr result), w')" by simp
    from Cons.IH [OF this d] k show ?thesis by simp
  next
    case (Some dev)
    from batch_loop_Cons_known [OF Some Cons.prems(1)] obtain r w1
      where rest: "batch_loop drvs env req ns (AList.update m r acc) w1 = (Some (Inr result), w')"
      by blast
    from Cons.IH [OF rest d] k show ?thesis by simp
  qed
qed

lemma batch_loop_values:
  "batch_loop drvs env req ns acc w = (Some (Inr result), w') \<Longrightarrow> distinct ns \<Longrightarrow>
   n \<in> set ns \<Longrightarrow>
   map_of result n =
     (case map_of (devices w') n of None \<Rightarrow> Some ''device_not_found'' | Some d \<Rightarrow> Some (state d))
   \<and> (map_of (devices w') n = None) = (map_of (devices w) n = None)"
proof (induction ns arbitrary: acc w)
  case Nil
  then show ?case by simp
next
  case (Cons m ns)
  then have dn: "distinct ns" and mn: "m \<notin> set ns" by auto
  show ?case
  proof (cases "map_of (devices w) m")
    case None
    with Cons.prems have rest: "batch_loop drvs env req ns (AList.update m ''device_not_found'' acc) w
        = (Some (Inr result), w')" by simp
    show ?thesis
    proof (cases "n = m")
      case True
      from batch_loop_frame [OF rest mn] None True show ?thesis
        by (simp add: AList.update_conv')
    next
      case False
      with Cons.prems have "n \<in> set ns" by simp
      from Cons.IH [OF rest dn this] show ?thesis .
    qed
  next
    case (Some dev)
    from batch_loop_Cons_known [OF Some Cons.prems(1)] obtain r w1
      where rd: "request_device (drvs m) env m dev req False w = (Some (Inr r), w1)"
        and rest: "batch_loop drvs env req ns (AList.update m r acc) w1 = (Some (Inr result), w')"
      by blast
    show ?thesis
    proof (cases "n = m")
      case True
      from request_device_state [OF rd] obtain d' where
        "map_of (devices w1) m = Some d'" "state d' = r" by blast
      with batch_loop_frame [OF rest mn] Some True show ?thesis
        by (simp add: AList.update_conv')
    next
      case False
      with Cons.prems have "n \<in> set ns" by simp
      from Cons.IH [OF rest dn this] request_device_frame [OF rd False]
      show ?thesis by simp
    qed
  qed
qed

lemma batch_loop_failure:
  "batch_loop drvs env req ns acc w = (Some (Inl e), w') \<Longrightarrow>
   \<exists>n dev s d' s'. n \<in> set ns \<and>
      process_request (drvs n) env req False (dev, s) = (Some (Inl e), d', s')"
proof (induction ns arbitrary: acc w)
  case Nil
  then show ?case by simp
next
  case (Cons m ns)
  show ?case
  proof (cases "map_of (devices w) m")
    case None
    with Cons.prems have "batch_loop drvs env req ns (AList.update m ''device_not_found'' acc) w
        = (Some (Inl e), w')" by simp
    from Cons.IH [OF this] obtain n dev s d1 s1 where "n \<in> set ns"
      and "process_request (drvs n) env req False (dev, s) = (Some (Inl e), d1, s1)"
      by blast
    then have "n \<in> set (m # ns) \<and>
        process_request (drvs n) env req False (dev, s) = (Some (Inl e), d1, s1)"
      by simp
    then show ?thesis by blast
  next
    case (Some dev)
    obtain x d' s' where p: "process_request (drvs m) env req False (dev, server w) = (x, d', s')"
      by (cases "process_request (drvs m) env req False (dev, server w)") auto
    show ?thesis
    proof (cases x)
      case None
      with Some Cons.prems p show ?thesis by (simp add: request_device_def)
    next
      case sx: (Some y)
      show ?thesis
      proof (cases y)
        case (Inl e')
        with sx Some Cons.prems p have "e' = e" by (simp add: request_device_def)
        with Inl sx p have "process_request (drvs m) env req False (dev, server w) = (Some (Inl e), d', s')"
          by simp
        then have "m \<in> set (m # ns) \<and>
            process_request (drvs m) env req False (dev, server w) = (Some (Inl e), d', s')"
          by simp
        then show ?thesis by blast
      next
        case (Inr r)
        with sx Some Cons.prems p have
          "batch_loop drvs env req ns (AList.update m r acc)
             (w\<lparr>devices := AList.update m d' (devices w), server := s'\<rparr>) = (Some (Inl e), w')"
          by (simp add: request_device_def)
        from Cons.IH [OF this] obtain n dev s d1 s1 where "n \<in> set ns"
      and "process_request (drvs n) env req False (dev, s) = (Some (Inl e), d1, s1)"
      by blast
    then have "n \<in> set (m # ns) \<and>
        process_request (drvs n) env req False (dev, s) = (Some (Inl e), d1, s1)"
      by simp
    then show ?thesis by blast
      qed
    qed
  qed
qed


text \<open>
  What a batch that returns a result has returned: one entry per requested name, in the
  order of the request, \<open>device_not_found\<close> for a name that is not registered and, for a
  registered name, the state its device is left in. When a batch with arguments fails,
  its error is the error of a \<open>process_request\<close> of one of the requested names.
\<close>

lemma handle_batch_power_request_returned:
  "(args wr = [] \<longrightarrow>
      handle_batch_power_request drvs env wr w =
        (Some (Inl (ServerError ''No arguments provided'')), w)) \<and>
   (args wr \<noteq> [] \<and> distinct (map fst (args wr)) \<and>
    handle_batch_power_request drvs env wr w = (Some (Inr result), w') \<longrightarrow>
      map fst result = map fst (args wr) \<and>
      (\<forall>n \<in> set (map fst (args wr)).
         (map_of (devices w) n = None \<longrightarrow> map_of result n = Some ''device_not_found'') \<and>
         (map_of (devices w) n \<noteq> None \<longrightarrow>
            (\<exists>d. map_of (devices w') n = Some d \<and> map_of result n = Some (state d))))) \<and>
   (args wr \<noteq> [] \<and> handle_batch_power_request drvs env wr w = (Some (Inl e), w') \<longrightarrow>
      (\<exists>n dev s d' s'. n \<in> set (map fst (args wr)) \<and>
         process_request (drvs n) env (last_segment (endpoint wr)) False (dev, s) =
           (Some (Inl e), d', s')))"
proof (intro conjI impI)
  assume "args wr = []"
  then show "handle_batch_power_request drvs env wr w =
        (Some (Inl (ServerError ''No arguments provided'')), w)"
    by (simp add: handle_batch_power_request_def)
next
  assume a: "args wr \<noteq> [] \<and> distinct (map fst (args wr)) \<and>
    handle_batch_power_request drvs env wr w = (Some (Inr result), w')"
  then have b: "batch_loop drvs env (last_segment (endpoint wr)) (map fst (args wr)) [] w
      = (Some (Inr result), w')"
    by (auto simp add: handle_batch_power_request_def)
  from a have d: "distinct (map fst (args wr))" by simp
  from batch_loop_keys [OF b] d show "map fst result = map fst (args wr)" by simp
  show "\<forall>n \<in> set (map fst (args wr)).
         (map_of (devices w) n = None \<longrightarrow> map_of result n = Some ''device_not_found'') \<and>
         (map_of (devices w) n \<noteq> None \<longrightarrow>
            (\<exists>d. map_of (devices w') n = Some d \<and> map_of result n = Some (state d)))"
  proof
    fix n assume "n \<in> set (map fst (args wr))"
    from batch_loop_values [OF b d this]
    show "(map_of (devices w) n = None \<longrightarrow> map_of result n = Some ''device_not_found'') \<and>
         (map_of (devices w) n \<noteq> None \<longrightarrow>
            (\<exists>d. map_of (devices w') n = Some d \<and> map_of result n = Some (state d)))"
      by (cases "map_of (devices w') n") auto
  qed
next
  assume a: "args wr \<noteq> [] \<and> handle_batch_power_request drvs env wr w = (Some (Inl e), w')"
  then have "batch_loop drvs env (last_segment (endpoint wr)) (map fst (args wr)) [] w
      = (Some (Inl e), w')"
    by (auto simp add: handle_batch_power_request_def)
  then show "\<exists>n dev s d' s'. n \<in> set (map fst (args wr)) \<and>
         process_request (drvs n) env (last_segment (endpoint wr)) False (dev, s) =
           (Some (Inl e), d', s')"
    by (rule batch_loop_failure)
qed

lemma last_segment_off: "last_segment ''/machine/device_power/off'' = ''off''"
  by code_simp

lemma last_segment_status: "last_segment ''/machine/device_power/status'' = ''status''"
  by code_simp

lemma plug_off_while_printing:
  "process_request (http_driver (Some ''on'') (Some ''off'')) env_printing ''off'' False (plug, server0) =
     (Some (Inl (ServerError ''Unable to change power for plug while printing'')),
      plug\<lparr>last_update_time := 10\<rparr>, server0)"
  by (simp add: process_request_def process_request_locked_def http_driver_def
      http_refresh_status_def plug_def env_printing_def Let_def)

lemma plug_status:
  "process_request (http_driver (Some ''on'') (Some ''off'')) env_printing ''status'' False (plug, server0) =
     (Some (Inr ''on''), plug\<lparr>last_update_time := 10\<rparr>, server0)"
  by (simp add: process_request_def process_request_locked_def http_driver_def
      http_refresh_status_def external_change_def plug_def env_printing_def Let_def)

text \<open>
  C5 as stated fails: the batch \<open>off\<close> for the registered \<open>plug\<close> and the unknown
  \<open>missing\<close>, during a print that locks the plug, returns no map; it fails with the error
  of the plug's request.
\<close>

theorem handle_batch_power_request_counterexample:
  "args (batch_request ''/machine/device_power/off'') \<noteq> [] \<and>
   map_of (devices registry0) ''plug'' = Some plug \<and>
   fst (handle_batch_power_request (\<lambda>n. http_driver (Some ''on'') (Some ''off'')) env_printing
          (batch_request ''/machine/device_power/off'') registry0) =
     Some (Inl (ServerError ''Unable to change power for plug while printing''))"
  by (simp add: handle_batch_power_request_def batch_request_def registry0_def last_segment_off
      request_device_def plug_off_while_printing)

text \<open>
  The loop over a list of names is the loop over its first part followed, when that part
  returned, by the loop over the rest; it never touches a device it was not asked for.
\<close>

lemma batch_loop_append:
  "batch_loop drvs env req (xs @ ys) acc w =
     (case batch_loop drvs env req xs acc w of
        (None, w1) \<Rightarrow> (None, w1)
      | (Some (Inl e), w1) \<Rightarrow> (Some (Inl e), w1)
      | (Some (Inr acc'), w1) \<Rightarrow> batch_loop drvs env req ys acc' w1)"
proof (induction xs arbitrary: acc w)
  case Nil
  show ?case by simp
next
  case (Cons m xs)
  show ?case
  proof (cases "map_of (devices w) m")
    case None
    then show ?thesis by (simp add: Cons.IH)
  next
    case (Some dev)
    obtain x w1 where rd: "request_device (drvs m) env m dev req False w = (x, w1)"
      by (cases "request_device (drvs m) env m dev req False w") auto
    show ?thesis
    proof (cases x)
      case None
      with Some rd show ?thesis by simp
    next
      case sx: (Some y)
      show ?thesis
      proof (cases y)
        case (Inl e)
        with sx Some rd show ?thesis by simp
      next
        case (Inr r)
        with sx Some rd show ?thesis by (simp add: Cons.IH)
      qed
    qed
  qed
qed

lemma batch_loop_devices_frame:
  "batch_loop drvs env req ns acc w = (out, w') \<Longrightarrow> n \<notin> set ns \<Longrightarrow>
   map_of (devices w') n = map_of (devices w) n"
proof (induction ns arbitrary: acc w)
  case Nil
  then show ?case by simp
next
  case (Cons m ns)
  then have nm: "n \<noteq> m" and nn: "n \<notin> set ns" by auto
  show ?case
  proof (cases "map_of (devices w) m")
    case None
    with Cons.prems have "batch_loop drvs env req ns (AList.update m ''device_not_found'' acc) w
        = (out, w')" by simp
    from Cons.IH [OF this nn] show ?thesis .
  next
    case (Some dev)
    obtain x w1 where rd: "request_device (drvs m) env m dev req False w = (x, w1)"
      by (cases "request_device (drvs m) env m dev req False w") auto
    note fr = request_device_frame [OF rd nm]
    show ?thesis
    proof (cases x)
      case None
      with Some rd Cons.prems have "w' = w1" by simp
      with fr show ?thesis by simp
    next
      case sx: (Some y)
      show ?thesis
      proof (cases y)
        case (Inl e)
        with sx Some rd Cons.prems have "w' = w1" by simp
        with fr show ?thesis by simp
      next
        case (Inr r)
        with sx Some rd Cons.prems have
          "batch_loop drvs env req ns (AList.update m r acc) w1 = (out, w')" by simp
        from Cons.IH [OF this nn] fr show ?thesis by simp
      qed
    qed
  qed
qed

lemma update_fresh_key:
  "n \<notin> fst ` set acc \<Longrightarrow> AList.update n v acc = acc @ [(n, v)]"
  by (induction acc) auto

lemma handle_batch_power_request_snoc:
  "(args wr = [] \<longrightarrow>
      handle_batch_power_request drvs env wr w =
        (Some (Inl (ServerError ''No arguments provided'')), w)) \<and>
   (map fst (args wr) = pre @ [n] \<and> distinct (map fst (args wr)) \<longrightarrow>
      handle_batch_power_request drvs env wr w =
        (case (if pre = [] then (Some (Inr []), w)
               else handle_batch_power_request drvs env (wr\<lparr>args := butlast (args wr)\<rparr>) w) of
           (None, w1) \<Rightarrow> (None, w1)
         | (Some (Inl e), w1) \<Rightarrow> (Some (Inl e), w1)
         | (Some (Inr acc), w1) \<Rightarrow>
             (case map_of (devices w) n of
                None \<Rightarrow> (Some (Inr (acc @ [(n, ''device_not_found'')])), w1)
              | Some dev \<Rightarrow>
                  (case process_request (drvs n) env (last_segment (endpoint wr)) False
                          (dev, server w1) of
                     (None, d', s') \<Rightarrow>
                       (None, w1\<lparr>devices := AList.update n d' (devices w1), server := s'\<rparr>)
                   | (Some (Inl e), d', s') \<Rightarrow>
                       (Some (Inl e), w1\<lparr>devices := AList.update n d' (devices w1), server := s'\<rparr>)
                   | (Some (Inr r), d', s') \<Rightarrow>
                       (Some (Inr (acc @ [(n, r)])),
                        w1\<lparr>devices := AList.update n d' (devices w1), server := s'\<rparr>)))))"
proof (intro conjI impI)
  assume "args wr = []"
  then show "handle_batch_power_request drvs env wr w =
        (Some (Inl (ServerError ''No arguments provided'')), w)"
    by (simp add: handle_batch_power_request_def)
next
  assume a: "map fst (args wr) = pre @ [n] \<and> distinct (map fst (args wr))"
  define req where "req = last_segment (endpoint wr)"
  from a have names: "map fst (args wr) = pre @ [n]" and dist: "distinct (pre @ [n])" by auto
  from names have ne: "args wr \<noteq> []" by auto
  from dist have npre: "n \<notin> set pre" and dpre: "distinct pre" by auto
  obtain x w1 where p: "batch_loop drvs env req pre [] w = (x, w1)"
    by (cases "batch_loop drvs env req pre [] w") auto
  have whole: "handle_batch_power_request drvs env wr w =
      (case (x, w1) of
        (None, w1) \<Rightarrow> (None, w1)
      | (Some (Inl e), w1) \<Rightarrow> (Some (Inl e), w1)
      | (Some (Inr acc'), w1) \<Rightarrow> batch_loop drvs env req [n] acc' w1)"
    using ne by (simp add: handle_batch_power_request_def names req_def [symmetric]
        batch_loop_append p)
  have "map fst (butlast (args wr)) = pre"
    using names by (simp add: map_butlast)
  then have bl: "pre \<noteq> [] \<Longrightarrow> butlast (args wr) \<noteq> []"
    and bn: "map fst (butlast (args wr)) = pre" by auto
  have earlier: "(if pre = [] then (Some (Inr []), w)
               else handle_batch_power_request drvs env (wr\<lparr>args := butlast (args wr)\<rparr>) w)
      = (x, w1)"
  proof (cases "pre = []")
    case True
    with p show ?thesis by simp
  next
    case False
    with bl bn p show ?thesis
      by (simp add: handle_batch_power_request_def req_def [symmetric])
  qed
  have fr: "map_of (devices w1) n = map_of (devices w) n"
    using batch_loop_devices_frame [OF p npre] .
  have last: "batch_loop drvs env req [n] acc w1 =
       (case map_of (devices w) n of
                None \<Rightarrow> (Some (Inr (acc @ [(n, ''device_not_found'')])), w1)
              | Some dev \<Rightarrow>
                  (case process_request (drvs n) env req False (dev, server w1) of
                     (None, d', s') \<Rightarrow>
                       (None, w1\<lparr>devices := AList.update n d' (devices w1), server := s'\<rparr>)
                   | (Some (Inl e), d', s') \<Rightarrow>
                       (Some (Inl e), w1\<lparr>devices := AList.update n d' (devices w1), server := s'\<rparr>)
                   | (Some (Inr r), d', s') \<Rightarrow>
                       (Some (Inr (acc @ [(n, r)])),
                        w1\<lparr>devices := AList.update n d' (devices w1), server := s'\<rparr>)))"
    if x: "x = Some (Inr acc)" for acc
  proof -
    from p x have "map fst acc = map fst ([] :: (string \<times> string) list) @ pre"
      using dpre by (intro batch_loop_keys) simp_all
    with npre have "n \<notin> fst ` set acc" by (metis append_Nil list.map(1) list.set_map)
    then have u: "AList.update n v acc = acc @ [(n, v)]" for v
      by (rule update_fresh_key)
    show ?thesis
      by (simp add: fr u request_device_def split: option.splits prod.splits sum.splits)
  qed
  show "handle_batch_power_request drvs env wr w =
        (case (if pre = [] then (Some (Inr []), w)
               else handle_batch_power_request drvs env (wr\<lparr>args := butlast (args wr)\<rparr>) w) of
           (None, w1) \<Rightarrow> (None, w1)
         | (Some (Inl e), w1) \<Rightarrow> (Some (Inl e), w1)
         | (Some (Inr acc), w1) \<Rightarrow>
             (case map_of (devices w) n of
                None \<Rightarrow> (Some (Inr (acc @ [(n, ''device_not_found'')])), w1)
              | Some dev \<Rightarrow>
                  (case process_request (drvs n) env (last_segment (endpoint wr)) False
                          (dev, server w1) of
                     (None, d', s') \<Rightarrow>
                       (None, w1\<lparr>devices := AList.update n d' (devices w1), server := s'\<rparr>)
                   | (Some (Inl e), d', s') \<Rightarrow>
                       (Some (Inl e), w1\<lparr>devices := AList.update n d' (devices w1), server := s'\<rparr>)
                   | (Some (Inr r), d', s') \<Rightarrow>
                       (Some (Inr (acc @ [(n, r)])),
                        w1\<lparr>devices := AList.update n d' (devices w1), server := s'\<rparr>))))"
    unfolding earlier whole req_def [symmetric]
  proof (cases x)
    case None
    then show "(case (x, w1) of
        (None, w1) \<Rightarrow> (None, w1)
      | (Some (Inl e), w1) \<Rightarrow> (Some (Inl e), w1)
      | (Some (Inr acc'), w1) \<Rightarrow> batch_loop drvs env req [n] acc' w1) =
      (case (x, w1) of
           (None, w1) \<Rightarrow> (None, w1)
         | (Some (Inl e), w1) \<Rightarrow> (Some (Inl e), w1)
         | (Some (Inr acc), w1) \<Rightarrow>
             (case map_of (devices w) n of
                None \<Rightarrow> (Some (Inr (acc @ [(n, ''device_not_found'')])), w1)
              | Some dev \<Rightarrow>
                  (case process_request (drvs n) env req False (dev, server w1) of
                     (None, d', s') \<Rightarrow>
                       (None, w1\<lparr>devices := AList.update n d' (devices w1), server := s'\<rparr>)
                   | (Some (Inl e), d', s') \<Rightarrow>
                       (Some (Inl e), w1\<lparr>devices := AList.update n d' (devices w1), server := s'\<rparr>)
                   | (Some (Inr r), d', s') \<Rightarrow>
                       (Some (Inr (acc @ [(n, r)])),
                        w1\<lparr>devices := AList.update n d' (devices w1), server := s'\<rparr>))))"
      by simp
  next
    case (Some y)
    then show "(case (x, w1) of
        (None, w1) \<Rightarrow> (None, w1)
      | (Some (Inl e), w1) \<Rightarrow> (Some (Inl e), w1)
      | (Some (Inr acc'), w1) \<Rightarrow> batch_loop drvs env req [n] acc' w1) =
      (case (x, w1) of
           (None, w1) \<Rightarrow> (None, w1)
         | (Some (Inl e), w1) \<Rightarrow> (Some (Inl e), w1)
         | (Some (Inr acc), w1) \<Rightarrow>
             (case map_of (devices w) n of
                None \<Rightarrow> (Some (Inr (acc @ [(n, ''device_not_found'')])), w1)
              | Some dev \<Rightarrow>
                  (case process_request (drvs n) env req False (dev, server w1) of
                     (None, d', s') \<Rightarrow>
                       (None, w1\<lparr>devices := AList.update n d' (devices w1), server := s'\<rparr>)
                   | (Some (Inl e), d', s') \<Rightarrow>
                       (Some (Inl e), w1\<lparr>devices := AList.update n d' (devices w1), server := s'\<rparr>)
                   | (Some (Inr r), d', s') \<Rightarrow>
                       (Some (Inr (acc @ [(n, r)])),
                        w1\<lparr>devices := AList.update n d' (devices w1), server := s'\<rparr>))))"
      using last by (cases y) simp_all
  qed
qed


lemma handle_batch_power_request_abort:
  assumes names: "map fst (args wr) = pre @ n # post"
    and earlier: "(if pre = [] then (Some (Inr []), w)
         else handle_batch_power_request drvs env (wr\<lparr>args := take (length pre) (args wr)\<rparr>) w)
        = (Some (Inr acc), w1)"
    and dist: "distinct (map fst (args wr))"
    and known: "map_of (devices w) n = Some dev"
    and fails: "process_request (drvs n) env (last_segment (endpoint wr)) False (dev, server w1)
        = (Some (Inl e), d', s')"
  shows "handle_batch_power_request drvs env wr w =
      (Some (Inl e), w1\<lparr>devices := AList.update n d' (devices w1), server := s'\<rparr>)"
proof -
  define req where "req = last_segment (endpoint wr)"
  from names have ne: "args wr \<noteq> []" by auto
  from names dist have npre: "n \<notin> set pre" by auto
  have tk: "map fst (take (length pre) (args wr)) = pre"
    using names by (simp add: take_map [symmetric])
  have p: "batch_loop drvs env req pre [] w = (Some (Inr acc), w1)"
  proof (cases "pre = []")
    case True
    with earlier show ?thesis by simp
  next
    case False
    with tk have "take (length pre) (args wr) \<noteq> []" by auto
    with earlier False tk show ?thesis
      by (simp add: handle_batch_power_request_def req_def [symmetric])
  qed
  have fr: "map_of (devices w1) n = Some dev"
    using batch_loop_devices_frame [OF p npre] known by simp
  have "batch_loop drvs env req (n # post) acc w1 =
      (Some (Inl e), w1\<lparr>devices := AList.update n d' (devices w1), server := s'\<rparr>)"
    using fails by (simp add: fr request_device_def req_def [symmetric])
  then show ?thesis
    using ne by (simp add: handle_batch_power_request_def names req_def [symmetric]
        batch_loop_append p)
qed

text \<open>
  C5, amended. A batch request without arguments fails with "No arguments provided". A
  batch with the distinct names \<open>pre @ [n]\<close> does what the batch with the names \<open>pre\<close>
  does and then turns to \<open>n\<close>: when the earlier names waited or failed, that is the outcome
  and \<open>n\<close> is not processed; when they returned the entries \<open>acc\<close>, an unregistered \<open>n\<close>
  adds the entry \<open>device_not_found\<close>, and a registered \<open>n\<close> has \<open>process_request\<close> called
  on its registered device, without \<open>force\<close>, with the request named by the endpoint and
  the server as the earlier names left it. A returned state is added as the entry of
  \<open>n\<close>; a failure is not captured and is the outcome of the batch. Last conjunct: a
  registered name whose \<open>process_request\<close> fails after the names before it returned
  aborts the batch with its error, whatever names follow; they are not processed.
\<close>

theorem handle_batch_power_request_result:
  "(args wr = [] \<longrightarrow>
      handle_batch_power_request drvs env wr w =
        (Some (Inl (ServerError ''No arguments provided'')), w)) \<and>
   (map fst (args wr) = pre @ [n] \<and> distinct (map fst (args wr)) \<longrightarrow>
      handle_batch_power_request drvs env wr w =
        (case (if pre = [] then (Some (Inr []), w)
               else handle_batch_power_request drvs env (wr\<lparr>args := butlast (args wr)\<rparr>) w) of
           (None, w1) \<Rightarrow> (None, w1)
         | (Some (Inl e), w1) \<Rightarrow> (Some (Inl e), w1)
         | (Some (Inr acc), w1) \<Rightarrow>
             (case map_of (devices w) n of
                None \<Rightarrow> (Some (Inr (acc @ [(n, ''device_not_found'')])), w1)
              | Some dev \<Rightarrow>
                  (case process_request (drvs n) env (last_segment (endpoint wr)) False
                          (dev, server w1) of
                     (None, d', s') \<Rightarrow>
                       (None, w1\<lparr>devices := AList.update n d' (devices w1), server := s'\<rparr>)
                   | (Some (Inl e), d', s') \<Rightarrow>
                       (Some (Inl e), w1\<lparr>devices := AList.update n d' (devices w1), server := s'\<rparr>)
                   | (Some (Inr r), d', s') \<Rightarrow>
                       (Some (Inr (acc @ [(n, r)])),
                        w1\<lparr>devices := AList.update n d' (devices w1), server := s'\<rparr>))))) \<and>
   (map fst (args wr) = names1 @ m # names2 \<and> distinct (map fst (args wr)) \<and>
    (if names1 = [] then (Some (Inr []), w)
     else handle_batch_power_request drvs env (wr\<lparr>args := take (length names1) (args wr)\<rparr>) w)
      = (Some (Inr acc1), w2) \<and>
    map_of (devices w) m = Some dev1 \<and>
    process_request (drvs m) env (last_segment (endpoint wr)) False (dev1, server w2)
      = (Some (Inl err), d1, s1) \<longrightarrow>
      handle_batch_power_request drvs env wr w =
        (Some (Inl err), w2\<lparr>devices := AList.update m d1 (devices w2), server := s1\<rparr>))"
proof (intro conjI impI)
  assume "args wr = []"
  then show "handle_batch_power_request drvs env wr w =
        (Some (Inl (ServerError ''No arguments provided'')), w)"
    by (simp add: handle_batch_power_request_def)
next
  assume "map fst (args wr) = pre @ [n] \<and> distinct (map fst (args wr))"
  with handle_batch_power_request_snoc [of wr drvs env w pre n]
  show "handle_batch_power_request drvs env wr w =
        (case (if pre = [] then (Some (Inr []), w)
               else handle_batch_power_request drvs env (wr\<lparr>args := butlast (args wr)\<rparr>) w) of
           (None, w1) \<Rightarrow> (None, w1)
         | (Some (Inl e), w1) \<Rightarrow> (Some (Inl e), w1)
         | (Some (Inr acc), w1) \<Rightarrow>
             (case map_of (devices w) n of
                None \<Rightarrow> (Some (Inr (acc @ [(n, ''device_not_found'')])), w1)
              | Some dev \<Rightarrow>
                  (case process_request (drvs n) env (last_segment (endpoint wr)) False
                          (dev, server w1) of
                     (None, d', s') \<Rightarrow>
                       (None, w1\<lparr>devices := AList.update n d' (devices w1), server := s'\<rparr>)
                   | (Some (Inl e), d', s') \<Rightarrow>
                       (Some (Inl e), w1\<lparr>devices := AList.update n d' (devices w1), server := s'\<rparr>)
                   | (Some (Inr r), d', s') \<Rightarrow>
                       (Some (Inr (acc @ [(n, r)])),
                        w1\<lparr>devices := AList.update n d' (devices w1), server := s'\<rparr>))))"
    by blast
next
  assume a: "map fst (args wr) = names1 @ m # names2 \<and> distinct (map fst (args wr)) \<and>
    (if names1 = [] then (Some (Inr []), w)
     else handle_batch_power_request drvs env (wr\<lparr>args := take (length names1) (args wr)\<rparr>) w)
      = (Some (Inr acc1), w2) \<and>
    map_of (devices w) m = Some dev1 \<and>
    process_request (drvs m) env (last_segment (endpoint wr)) False (dev1, server w2)
      = (Some (Inl err), d1, s1)"
  show "handle_batch_power_request drvs env wr w =
        (Some (Inl err), w2\<lparr>devices := AList.update m d1 (devices w2), server := s1\<rparr>)"
    by (rule handle_batch_power_request_abort [of wr names1 m names2 w drvs env acc1 w2 dev1 err d1 s1])
      (use a in blast)+
qed

text \<open>
  C5, amended, on the registry that holds \<open>plug\<close> alone: the batch \<open>status\<close> for \<open>plug\<close>
  and \<open>missing\<close> returns both entries; the batch \<open>off\<close> for the same names during a print
  fails with the plug's error and \<open>missing\<close> is not looked at.
\<close>

theorem handle_batch_power_request_result_witness:
  "map fst (args (batch_request ''/machine/device_power/status'')) = [''plug''] @ [''missing''] \<and>
   distinct (map fst (args (batch_request ''/machine/device_power/status''))) \<and>
   handle_batch_power_request (\<lambda>n. http_driver (Some ''on'') (Some ''off'')) env_printing
       (batch_request ''/machine/device_power/status'') registry0 =
     (Some (Inr [(''plug'', ''on''), (''missing'', ''device_not_found'')]),
      registry0\<lparr>devices := [(''plug'', plug\<lparr>last_update_time := 10\<rparr>)]\<rparr>) \<and>
   map fst (args (batch_request ''/machine/device_power/off'')) = [] @ ''plug'' # [''missing''] \<and>
   map_of (devices registry0) ''plug'' = Some plug \<and>
   process_request (http_driver (Some ''on'') (Some ''off'')) env_printing
       (last_segment (endpoint (batch_request ''/machine/device_power/off''))) False
       (plug, server registry0) =
     (Some (Inl (ServerError ''Unable to change power for plug while printing'')),
      plug\<lparr>last_update_time := 10\<rparr>, server0) \<and>
   handle_batch_power_request (\<lambda>n. http_driver (Some ''on'') (Some ''off'')) env_printing
       (batch_request ''/machine/device_power/off'') registry0 =
     (Some (Inl (ServerError ''Unable to change power for plug while printing'')),
      registry0\<lparr>devices := [(''plug'', plug\<lparr>last_update_time := 10\<rparr>)]\<rparr>)"
proof -
  let ?drvs = "\<lambda>n::string. http_driver (Some ''on'') (Some ''off'') :: unit Driver"
  let ?st = "batch_request ''/machine/device_power/status''"
  let ?off = "batch_request ''/machine/device_power/off''"
  have n1: "map fst (args ?st) = [''plug''] @ [''missing'']" by (simp add: batch_request_def)
  have d1: "distinct (map fst (args ?st))" by (simp add: batch_request_def)
  have pre: "handle_batch_power_request ?drvs env_printing (?st\<lparr>args := butlast (args ?st)\<rparr>) registry0
      = (Some (Inr [(''plug'', ''on'')]),
         registry0\<lparr>devices := [(''plug'', plug\<lparr>last_update_time := 10\<rparr>)]\<rparr>)"
    by (simp add: handle_batch_power_request_def batch_request_def registry0_def
        last_segment_status request_device_def plug_status)
  have m: "map_of (devices registry0) ''missing'' = None" by (simp add: registry0_def)
  have h1: "handle_batch_power_request ?drvs env_printing ?st registry0 =
     (Some (Inr [(''plug'', ''on''), (''missing'', ''device_not_found'')]),
      registry0\<lparr>devices := [(''plug'', plug\<lparr>last_update_time := 10\<rparr>)]\<rparr>)"
    using handle_batch_power_request_result
      [of ?st ?drvs env_printing registry0 "[''plug'']" "''missing''",
       THEN conjunct2, THEN conjunct1] n1 d1
    by (simp add: pre m)
  have n2: "map fst (args ?off) = [] @ ''plug'' # [''missing'']" by (simp add: batch_request_def)
  have d2: "distinct (map fst (args ?off))" by (simp add: batch_request_def)
  have k: "map_of (devices registry0) ''plug'' = Some plug" by (simp add: registry0_def)
  have f: "process_request (http_driver (Some ''on'') (Some ''off'')) env_printing
       (last_segment (endpoint ?off)) False (plug, server registry0) =
     (Some (Inl (ServerError ''Unable to change power for plug while printing'')),
      plug\<lparr>last_update_time := 10\<rparr>, server0)"
    by (simp add: batch_request_def last_segment_off registry0_def plug_off_while_printing)
  have h2: "handle_batch_power_request ?drvs env_printing ?off registry0 =
     (Some (Inl (ServerError ''Unable to change power for plug while printing'')),
      registry0\<lparr>devices := [(''plug'', plug\<lparr>last_update_time := 10\<rparr>)]\<rparr>)"
    using handle_batch_power_request_result
      [of ?off ?drvs env_printing registry0 _ _ "[]" "''plug''" "[''missing'']" "[]" registry0
          plug "ServerError ''Unable to change power for plug while printing''"
          "plug\<lparr>last_update_time := 10\<rparr>" server0,
       THEN conjunct2, THEN conjunct2] n2 d2 k f
    by (simp add: registry0_def)
  from n1 d1 h1 n2 k f h2 show ?thesis by simp
qed

section \<open>Shutdown of Klippy\<close>

text \<open>
  C6. For a registered device with \<open>off_when_shutdown\<close> and a positive
  \<open>off_when_shutdown_delay\<close>, \<open>process_klippy_shutdown\<close> takes the device's shutdown
  timer, if it has one, out of the pending timers and arms one new timer for the delay,
  whose handle the device keeps. The timer's callback, in whatever surroundings it runs,
  queues the \<open>off\<close> request through \<open>set_device_power\<close> when Klippy's state is
  \<open>SHUTDOWN\<close> at that moment and does nothing otherwise.
\<close>

theorem process_klippy_shutdown_delayed:
  "map_of (devices w) key = Some d \<Longrightarrow> off_when_shutdown d \<Longrightarrow>
   0 < off_when_shutdown_delay d \<Longrightarrow>
   process_klippy_shutdown env key w =
     w\<lparr>devices :=
         AList.update key (d\<lparr>shutdown_timer_handle := Some (next_handle (server w))\<rparr>) (devices w),
       server := (server w)
         \<lparr>timers := filter (\<lambda>t. Some (fst t) \<noteq> shutdown_timer_handle d) (timers (server w))
                     @ [(next_handle (server w), off_when_shutdown_delay d, PowerOffOnShutdownCb key)],
          next_handle := Suc (next_handle (server w))\<rparr>\<rparr> \<and>
   run_timer_callback env' (PowerOffOnShutdownCb key) w2 =
     (if kconn_state env' = SHUTDOWN then
        (case map_of (devices w2) key of
           None \<Rightarrow> w2
         | Some d2 \<Rightarrow> set_device_power (name d2) (StrState ''off'') False w2)
      else w2)"
proof -
  assume k: "map_of (devices w) key = Some d" and o: "off_when_shutdown d"
    and dl: "0 < off_when_shutdown_delay d"
  have a: "process_klippy_shutdown env key w =
     w\<lparr>devices :=
         AList.update key (d\<lparr>shutdown_timer_handle := Some (next_handle (server w))\<rparr>) (devices w),
       server := (server w)
         \<lparr>timers := filter (\<lambda>t. Some (fst t) \<noteq> shutdown_timer_handle d) (timers (server w))
                     @ [(next_handle (server w), off_when_shutdown_delay d, PowerOffOnShutdownCb key)],
          next_handle := Suc (next_handle (server w))\<rparr>\<rparr>"
  proof (cases "shutdown_timer_handle d")
    case None
    with k o dl show ?thesis
      by (simp add: process_klippy_shutdown_def delay_callback_def Let_def)
  next
    case (Some h)
    have "(\<lambda>t. Some (fst t) \<noteq> Some h) = (\<lambda>t. fst t \<noteq> h)" by auto
    with Some k o dl show ?thesis
      by (simp add: process_klippy_shutdown_def delay_callback_def cancel_def Let_def)
  qed
  have b: "run_timer_callback env' (PowerOffOnShutdownCb key) w2 =
     (if kconn_state env' = SHUTDOWN then
        (case map_of (devices w2) key of
           None \<Rightarrow> w2
         | Some d2 \<Rightarrow> set_device_power (name d2) (StrState ''off'') False w2)
      else w2)"
    by (simp add: run_timer_callback_def power_off_on_shutdown_def split: option.splits)
  from a b show ?thesis by (rule conjI)
qed


text \<open>
  C6 on a device with a delay of 2: the shutdown arms timer 0. When the timer runs after
  Klippy is ready again, no request is queued; when it runs during the shutdown, the
  \<open>off\<close> request is queued. A second shutdown before the timer runs replaces timer 0 by
  timer 1.
\<close>

theorem process_klippy_shutdown_delayed_witness:
  "map_of (devices registry_psu) ''psu'' = Some psu \<and> off_when_shutdown psu \<and>
   0 < off_when_shutdown_delay psu \<and>
   timers (server (process_klippy_shutdown env_shutdown ''psu'' registry_psu)) =
     [(0, 2, PowerOffOnShutdownCb ''psu'')] \<and>
   callbacks (server (fire_timer env_ready 0
       (process_klippy_shutdown env_shutdown ''psu'' registry_psu))) = [] \<and>
   callbacks (server (fire_timer env_shutdown 0
       (process_klippy_shutdown env_shutdown ''psu'' registry_psu))) = [(''psu'', ''off'', False)] \<and>
   timers (server (process_klippy_shutdown env_shutdown ''psu''
       (process_klippy_shutdown env_shutdown ''psu'' registry_psu))) =
     [(1, 2, PowerOffOnShutdownCb ''psu'')]"
proof -
  have k: "map_of (devices registry_psu) ''psu'' = Some psu" by (simp add: registry_psu_def)
  have o: "off_when_shutdown psu" by (simp add: psu_def)
  have dl: "0 < off_when_shutdown_delay psu" by (simp add: psu_def)
  define w1 where "w1 = \<lparr>devices = [(''psu'', psu\<lparr>shutdown_timer_handle := Some 0\<rparr>)],
      server = server0\<lparr>timers := [(0, 2, PowerOffOnShutdownCb ''psu'')], next_handle := 1\<rparr>\<rparr>"
  have s1: "process_klippy_shutdown env_shutdown ''psu'' registry_psu = w1"
    using process_klippy_shutdown_delayed [OF k o dl, THEN conjunct1, of env_shutdown]
    by (simp add: registry_psu_def psu_def server0_def w1_def)
  have k1: "map_of (devices w1) ''psu'' = Some (psu\<lparr>shutdown_timer_handle := Some 0\<rparr>)"
    by (simp add: w1_def)
  have o1: "off_when_shutdown (psu\<lparr>shutdown_timer_handle := Some 0\<rparr>)" by (simp add: psu_def)
  have dl1: "0 < off_when_shutdown_delay (psu\<lparr>shutdown_timer_handle := Some 0\<rparr>)"
    by (simp add: psu_def)
  have s2: "timers (server (process_klippy_shutdown env_shutdown ''psu'' w1)) =
      [(1, 2, PowerOffOnShutdownCb ''psu'')]"
    using process_klippy_shutdown_delayed [OF k1 o1 dl1, THEN conjunct1, of env_shutdown]
    by (simp add: psu_def server0_def w1_def)
  have f1: "callbacks (server (fire_timer env_ready 0 w1)) = []"
    by (simp add: fire_timer_def w1_def server0_def cancel_def run_timer_callback_def
        power_off_on_shutdown_def env_ready_def)
  have f2: "callbacks (server (fire_timer env_shutdown 0 w1)) = [(''psu'', ''off'', False)]"
    by (simp add: fire_timer_def w1_def server0_def cancel_def run_timer_callback_def
        power_off_on_shutdown_def env_shutdown_def set_device_power_def normalize_request_def
        lower_def lower_char_def register_callback_def psu_def Let_def)
  have t1: "timers (server w1) = [(0, 2, PowerOffOnShutdownCb ''psu'')]"
    by (simp add: w1_def server0_def)
  from k o dl t1 f1 f2 s2 show ?thesis by (simp only: s1 simp_thms)
qed

section \<open>Auto-off timers\<close>

text \<open>
  \<open>GpioDevice.set_power\<close>, \<open>KlipperDevice.set_power\<close> and the other methods of the two
  classes that touch the timer keep the invariant, under which at most one auto-off timer
  of the device is pending; a \<open>set_power\<close> that leaves a device with a timer option on
  leaves exactly one.
\<close>

lemma distinct_all_equal:
  "distinct xs \<Longrightarrow> list_all (\<lambda>x. x = a) xs \<Longrightarrow> length xs \<le> Suc 0"
  by (cases xs; cases "tl xs") auto

lemma timer_inv_at_most_one:
  assumes "timer_inv d s"
  shows "length (auto_off_timers (name d) s) \<le> 1"
proof (cases "timer_handle d")
  case None
  with assms have "list_all (\<lambda>t. False) (auto_off_timers (name d) s)"
    by (simp add: timer_inv_def)
  then have "auto_off_timers (name d) s = []"
    by (cases "auto_off_timers (name d) s") simp_all
  then show ?thesis by simp
next
  case (Some h)
  from assms have "distinct (map fst (auto_off_timers (name d) s))"
    by (simp add: timer_inv_def auto_off_timers_def distinct_map_filter)
  moreover from assms Some have "list_all (\<lambda>x. x = h) (map fst (auto_off_timers (name d) s))"
    by (auto simp add: timer_inv_def list_all_iff)
  ultimately have "length (map fst (auto_off_timers (name d) s)) \<le> Suc 0"
    by (rule distinct_all_equal)
  then show ?thesis by simp
qed

lemma reset_timer_inv:
  assumes "timer_inv d s" and "reset_timer (d, s) = (d', s')"
  shows "timer_inv d' s' \<and> auto_off_timers (name d') s' = [] \<and> name d' = name d \<and>
         timer d' = timer d \<and> state d' = state d \<and> next_handle s' = next_handle s"
proof (cases "timer_handle d")
  case None
  with assms(1) have "list_all (\<lambda>t. False) (auto_off_timers (name d) s)"
    by (simp add: timer_inv_def)
  then have "auto_off_timers (name d) s = []"
    by (cases "auto_off_timers (name d) s") simp_all
  with None assms show ?thesis by (auto simp add: reset_timer_def)
next
  case (Some h)
  with assms(2) have d': "d' = d\<lparr>timer_handle := None\<rparr>" and s': "s' = cancel h s"
    by (simp_all add: reset_timer_def)
  from assms(1) Some have all: "\<forall>t \<in> set (auto_off_timers (name d) s). fst t = h"
    by (auto simp add: timer_inv_def list_all_iff)
  have e: "auto_off_timers (name d) (cancel h s) = []"
    using all by (auto simp add: auto_off_timers_def cancel_def filter_empty_conv) blast
  from assms(1) have "list_all (\<lambda>t. fst t < next_handle s) (filter (\<lambda>t. fst t \<noteq> h) (timers s))"
    and "distinct (map fst (filter (\<lambda>t. fst t \<noteq> h) (timers s)))"
    by (auto simp add: timer_inv_def list_all_iff distinct_map_filter)
  with e d' s' show ?thesis
    by (simp add: timer_inv_def cancel_def)
qed

lemma check_timer_inv:
  assumes "timer_inv d s" and "auto_off_timers (name d) s = []"
    and "check_timer (d, s) = (d', s')"
  shows "timer_inv d' s' \<and> name d' = name d \<and>
         auto_off_timers (name d') s' =
           (case timer d of
              None \<Rightarrow> []
            | Some t \<Rightarrow> if state d = ''on''
                        then [(next_handle s, t, SetDevicePowerCb (name d) (StrState ''off''))]
                        else [])"
proof (cases "timer d")
  case None
  with assms show ?thesis by (auto simp add: check_timer_def timer_inv_def)
next
  case (Some t)
  show ?thesis
  proof (cases "state d = ''on''")
    case False
    with Some assms show ?thesis by (auto simp add: check_timer_def timer_inv_def)
  next
    case True
    with Some assms(3) have d': "d' = d\<lparr>timer_handle := Some (next_handle s)\<rparr>"
      and s': "s' = s\<lparr>timers := timers s @ [(next_handle s, t, SetDevicePowerCb (name d) (StrState ''off''))],
                      next_handle := Suc (next_handle s)\<rparr>"
      by (simp_all add: check_timer_def delay_callback_def)
    from assms(1) have fresh: "\<forall>x \<in> set (timers s). fst x < next_handle s"
      and dist: "distinct (map fst (timers s))"
      by (simp_all add: timer_inv_def list_all_iff)
    from fresh have nin: "next_handle s \<notin> fst ` set (timers s)" by auto
    from fresh have "\<forall>x \<in> set (timers s). fst x < Suc (next_handle s)" by auto
    with dist nin assms(2) Some True show ?thesis
      by (simp add: d' s' timer_inv_def list_all_iff auto_off_timers_def)
  qed
qed

lemma gpio_set_power_inv:
  assumes inv: "timer_inv d s" and sp: "gpio_set_power write_ok st (d, s) = (e, d', s')"
  shows "timer_inv d' s' \<and> length (auto_off_timers (name d') s') \<le> 1 \<and>
         (e = None \<and> st = ''on'' \<and> timer d \<noteq> None \<longrightarrow>
            length (auto_off_timers (name d') s') = 1)"
proof -
  obtain d1 s1 where rt: "reset_timer (d, s) = (d1, s1)" by (cases "reset_timer (d, s)") auto
  from reset_timer_inv [OF inv rt] have i1: "timer_inv d1 s1"
    and e1: "auto_off_timers (name d1) s1 = []" and n1: "name d1 = name d"
    and t1: "timer d1 = timer d" by auto
  show ?thesis
  proof (cases write_ok)
    case False
    with sp rt have "d' = d1\<lparr>state := ''error''\<rparr>" and "s' = s1" and "e \<noteq> None"
      by (auto simp add: gpio_set_power_def)
    with i1 e1 show ?thesis
      by (simp add: timer_inv_def)
  next
    case True
    with sp rt have ct: "check_timer (d1\<lparr>state := st\<rparr>, s1) = (d', s')" and "e = None"
      by (simp_all add: gpio_set_power_def)
    have i2: "timer_inv (d1\<lparr>state := st\<rparr>) s1" using i1 by (simp add: timer_inv_def)
    have e2: "auto_off_timers (name (d1\<lparr>state := st\<rparr>)) s1 = []" using e1 by simp
    from check_timer_inv [OF i2 e2 ct] t1 timer_inv_at_most_one [of d' s']
    show ?thesis by (auto split: option.splits)
  qed
qed

lemma klipper_set_power_inv:
  assumes inv: "timer_inv d s" and sp: "klipper_set_power reply env st (d, s) = (e, d', s')"
  shows "timer_inv d' s' \<and> length (auto_off_timers (name d') s') \<le> 1 \<and>
         (e = None \<and> state d' = ''on'' \<and> timer d \<noteq> None \<longrightarrow>
            length (auto_off_timers (name d') s') = 1)"
proof (cases "is_shutdown d")
  case True
  with sp have "d' = d" "s' = s" "e \<noteq> None" by (auto simp add: klipper_set_power_def)
  with inv timer_inv_at_most_one [OF inv] show ?thesis by auto
next
  case ns: False
  obtain d1 s1 where rt: "reset_timer (d, s) = (d1, s1)" by (cases "reset_timer (d, s)") auto
  from reset_timer_inv [OF inv rt] have i1: "timer_inv d1 s1"
    and e1: "auto_off_timers (name d1) s1 = []" and n1: "name d1 = name d"
    and t1: "timer d1 = timer d" by auto
  show ?thesis
  proof (cases reply)
    case GcodeTimeout
    with sp rt ns have "d' = d1\<lparr>state := ''error''\<rparr>" and "s' = s1" and "e \<noteq> None"
      by (auto simp add: klipper_set_power_def)
    with i1 e1 show ?thesis by (simp add: timer_inv_def)
  next
    case GcodeError
    with sp rt ns have "d' = d1\<lparr>state := ''error''\<rparr>" and "s' = s1" and "e \<noteq> None"
      by (auto simp add: klipper_set_power_def)
    with i1 e1 show ?thesis by (simp add: timer_inv_def)
  next
    case (StatusUpdate v)
    define d2 where "d2 = klipper_set_state env (if v then ''on'' else ''off'') d1"
    from StatusUpdate sp rt ns have ct: "check_timer (d2, s1) = (d', s')"
      by (simp add: klipper_set_power_def d2_def)
    have i2: "timer_inv d2 s1" using i1 by (simp add: timer_inv_def d2_def klipper_set_state_def)
    have e2: "auto_off_timers (name d2) s1 = []" using e1 by (simp add: d2_def klipper_set_state_def)
    have t2: "timer d2 = timer d" using t1 by (simp add: d2_def klipper_set_state_def)
    have st: "state d' = state d2" using ct
      by (auto simp add: check_timer_def delay_callback_def split: option.splits if_splits)
    from check_timer_inv [OF i2 e2 ct] t2 st timer_inv_at_most_one [of d' s']
    show ?thesis by (auto split: option.splits)
  qed
qed


lemma timer_inv_initial:
  "timer_handle d = None \<Longrightarrow> timer_inv d server0"
  by (simp add: timer_inv_def server0_def auto_off_timers_def)

lemma gpio_close_inv:
  assumes "timer_inv d s" and "gpio_close (d, s) = (d', s')"
  shows "timer_inv d' s' \<and> auto_off_timers (name d') s' = []"
  using reset_timer_inv [OF assms(1), of d' s'] assms(2) by (auto simp add: gpio_close_def)

lemma klipper_close_inv:
  assumes "timer_inv d s" and "klipper_close (d, s) = (d', s')"
  shows "timer_inv d' s' \<and> auto_off_timers (name d') s' = []"
  using reset_timer_inv [OF assms(1), of d' s'] assms(2) by (auto simp add: klipper_close_def)

lemma klipper_handle_disconnect_inv:
  assumes "timer_inv d s" and "klipper_handle_disconnect env (d, s) = (d', s')"
  shows "timer_inv d' s' \<and> auto_off_timers (name d') s' = []"
proof -
  have "timer_inv (klipper_set_state env ''init'' (d\<lparr>is_shutdown := False\<rparr>)) s"
    using assms(1) by (simp add: timer_inv_def klipper_set_state_def)
  from reset_timer_inv [OF this, of d' s'] assms(2) show ?thesis
    by (auto simp add: klipper_handle_disconnect_def)
qed

lemma klipper_process_klippy_shutdown_inv:
  assumes "timer_inv d s" and "klipper_process_klippy_shutdown env (d, s) = (d', s')"
  shows "timer_inv d' s' \<and> auto_off_timers (name d') s' = []"
proof -
  have "timer_inv (klipper_set_state env ''error'' (d\<lparr>is_shutdown := True\<rparr>)) s"
    using assms(1) by (simp add: timer_inv_def klipper_set_state_def)
  from reset_timer_inv [OF this, of d' s'] assms(2) show ?thesis
    by (auto simp add: klipper_process_klippy_shutdown_def)
qed

text \<open>A timer that has run, or that anyone cancels, leaves the invariant in place.\<close>

lemma cancel_inv:
  "timer_inv d s \<Longrightarrow> timer_inv d (cancel h s)"
  by (auto simp add: timer_inv_def cancel_def auto_off_timers_def list_all_iff distinct_map_filter)

lemma rf_on:
  assumes "d = rf_plug\<lparr>state := ''off'', timer_handle := h, last_update_time := t\<rparr>"
  shows "process_request (rf_driver True) env_idle ''on'' False (d, s) =
     (Some (Inr ''on''),
      d\<lparr>state := ''on'', timer_handle := Some (next_handle s), last_update_time := 1\<rparr>,
      s\<lparr>events := events s @ [SendEvent ''power:power_changed''
             \<lparr>device = ''rf'', status = ''on'', info_locked_while_printing = False,
                info_type = ''rf''\<rparr>],
        timers := timers s @ [(next_handle s, 5, SetDevicePowerCb ''rf'' (StrState ''off''))],
        next_handle := Suc (next_handle s)\<rparr>)"
  using assms
  by (simp add: process_request_def process_request_locked_def rf_driver_def rf_set_power_def
      check_timer_def delay_callback_def process_power_changed_unfold get_device_info_def
      rf_plug_def env_idle_def Let_def)

lemma rf_off:
  assumes "d = rf_plug\<lparr>state := ''on'', timer_handle := h, last_update_time := t\<rparr>"
  shows "process_request (rf_driver True) env_idle ''off'' False (d, s) =
     (Some (Inr ''off''),
      d\<lparr>state := ''off'', last_update_time := 1\<rparr>,
      s\<lparr>events := events s @ [SendEvent ''power:power_changed''
             \<lparr>device = ''rf'', status = ''off'', info_locked_while_printing = False,
                info_type = ''rf''\<rparr>]\<rparr>)"
  using assms
  by (simp add: process_request_def process_request_locked_def rf_driver_def rf_set_power_def
      check_timer_def delay_callback_def process_power_changed_unfold get_device_info_def
      rf_plug_def env_idle_def Let_def)

text \<open>
  C7 fails for an RF device with a timer of 5. \<open>RFDevice.set_power\<close> does not cancel the
  timer the device holds before it arms a new one, as \<open>GpioDevice.set_power\<close>, which it
  overrides, and \<open>KlipperDevice.set_power\<close> do. The requests \<open>on\<close>, \<open>off\<close> and \<open>on\<close>
  each reach \<open>set_power\<close> and leave two pending auto-off timers: timer 0 of the first
  \<open>on\<close>, which the device no longer holds, and timer 1 of the second.
\<close>

theorem rf_set_power_stacks_timers:
  "(case process_request (rf_driver True) env_idle ''on'' False (rf_plug, server0) of
      (r1, d1, s1) \<Rightarrow>
        case process_request (rf_driver True) env_idle ''off'' False (d1, s1) of
          (r2, d2, s2) \<Rightarrow>
            case process_request (rf_driver True) env_idle ''on'' False (d2, s2) of
              (r3, d3, s3) \<Rightarrow>
                (r1, r2, r3, timer_handle d3, auto_off_timers (name d3) s3)) =
   (Some (Inr ''on''), Some (Inr ''off''), Some (Inr ''on''), Some 1,
    [(0, 5, SetDevicePowerCb ''rf'' (StrState ''off'')),
     (1, 5, SetDevicePowerCb ''rf'' (StrState ''off''))])"
proof -
  have a: "rf_plug = rf_plug\<lparr>state := ''off'', timer_handle := None, last_update_time := 0\<rparr>"
    by (simp add: rf_plug_def)
  have b: "rf_plug\<lparr>state := ''on'', timer_handle := Some (next_handle server0), last_update_time := 1\<rparr>
      = rf_plug\<lparr>state := ''on'', timer_handle := Some 0, last_update_time := 1\<rparr>"
    by (simp add: server0_def)
  have c: "rf_plug\<lparr>state := ''on'', timer_handle := Some 0, last_update_time := 1,
        state := ''off'', last_update_time := 1\<rparr>
      = rf_plug\<lparr>state := ''off'', timer_handle := Some 0, last_update_time := 1\<rparr>"
    by simp
  show ?thesis
    apply (subst rf_on [OF a])
    apply (simp only: prod.case b)
    apply (subst rf_off [OF refl])
    apply (simp only: prod.case c)
    apply (subst rf_on [OF refl])
    apply (simp add: auto_off_timers_def server0_def rf_plug_def)
    done
qed

end
